theory Spec2Isabelle
  imports Complex_Main "HOL-Library.Sublist" "HOL-Library.Multiset"
begin

section \<open>Strings of the host language\<close>

text \<open>
  A string of the source language is a sequence of UTF-16 code units; its \<open>length\<close>,
  \<open>substring\<close>, \<open>includes\<close> and the regular expressions (none carries the \<open>u\<close> flag)
  all work on code units. A code unit is modelled by its numeric value.
\<close>

type_synonym jsstring = "nat list"

definition js :: "string \<Rightarrow> jsstring" where
  "js s = map of_char s"

text \<open>
  White space and line terminators, the characters removed by \<open>trim()\<close> and matched by
  \<open>\s\<close>: TAB, LF, VT, FF, CR, SPACE, NBSP, U+1680, U+2000..U+200A, U+2028, U+2029,
  U+202F, U+205F, U+3000, U+FEFF.
\<close>

definition isSpace :: "nat \<Rightarrow> bool" where
  "isSpace c = (c = 0x09 \<or> c = 0x0A \<or> c = 0x0B \<or> c = 0x0C \<or> c = 0x0D \<or> c = 0x20
     \<or> c = 0xA0 \<or> c = 0x1680 \<or> (0x2000 \<le> c \<and> c \<le> 0x200A) \<or> c = 0x2028 \<or> c = 0x2029
     \<or> c = 0x202F \<or> c = 0x205F \<or> c = 0x3000 \<or> c = 0xFEFF)"

definition isDigit :: "nat \<Rightarrow> bool" where
  "isDigit c = (0x30 \<le> c \<and> c \<le> 0x39)"

definition trimStart :: "jsstring \<Rightarrow> jsstring" where
  "trimStart s = dropWhile isSpace s"

definition trimEnd :: "jsstring \<Rightarrow> jsstring" where
  "trimEnd s = rev (dropWhile isSpace (rev s))"

definition trim :: "jsstring \<Rightarrow> jsstring" where
  "trim s = trimEnd (trimStart s)"

definition startsWith :: "jsstring \<Rightarrow> jsstring \<Rightarrow> bool" where
  "startsWith s t = (take (length t) s = t)"

text \<open>\<open>s.includes(t)\<close>: \<open>t\<close> occurs in \<open>s\<close> as a contiguous run.\<close>

fun includesStr :: "jsstring \<Rightarrow> jsstring \<Rightarrow> bool" where
  "includesStr [] t = (t = [])"
| "includesStr (c # cs) t = (startsWith (c # cs) t \<or> includesStr cs t)"

text \<open>\<open>s.substring(0, n)\<close> for a non-negative integer \<open>n\<close>.\<close>

definition substring0 :: "jsstring \<Rightarrow> nat \<Rightarrow> jsstring" where
  "substring0 s n = take n s"

section \<open>Regular expressions anchored at the start\<close>

text \<open>
  The regular expressions of the cleaner are all of the form \<open>/^R/\<close> without the \<open>g\<close>
  and \<open>m\<close> flags, so \<open>replace\<close> removes at most one match, which starts at index 0.
  The matcher is the backtracking one of the language: \<open>rmatch r s\<close> lists, in the order
  in which backtracking tries them, the rests of \<open>s\<close> after every way of matching \<open>r\<close>
  at its start. Quantifiers are greedy and are only ever applied to a character class
  in the source.
\<close>

datatype regex =
    Lit jsstring
  | LitI jsstring
  | Class "nat \<Rightarrow> bool"
  | Opt "nat \<Rightarrow> bool"
  | Star "nat \<Rightarrow> bool"
  | Plus "nat \<Rightarrow> bool"
  | Alt regex regex
  | Seq regex regex

text \<open>
  Canonicalisation under the \<open>i\<close> flag without \<open>u\<close>: a character is compared by its
  upper-case form, except that a character outside ASCII never canonicalises into
  ASCII. The literals of the source under \<open>i\<close> are ASCII letters and CJK ideographs; an
  ASCII letter is matched by its two cases only and an ideograph by itself only, which
  is what comparing after \<open>canonicalize\<close> gives.
\<close>

definition canonicalize :: "nat \<Rightarrow> nat" where
  "canonicalize c = (if 0x61 \<le> c \<and> c \<le> 0x7A then c - 0x20 else c)"

fun starRests :: "(nat \<Rightarrow> bool) \<Rightarrow> jsstring \<Rightarrow> jsstring list" where
  "starRests P [] = [[]]"
| "starRests P (c # cs) = (if P c then starRests P cs @ [c # cs] else [c # cs])"

fun rmatch :: "regex \<Rightarrow> jsstring \<Rightarrow> jsstring list" where
  "rmatch (Lit w) s = (if startsWith s w then [drop (length w) s] else [])"
| "rmatch (LitI w) s =
     (if length w \<le> length s \<and> map canonicalize (take (length w) s) = map canonicalize w
      then [drop (length w) s] else [])"
| "rmatch (Class P) s = (case s of [] \<Rightarrow> [] | c # cs \<Rightarrow> if P c then [cs] else [])"
| "rmatch (Opt P) s = (case s of [] \<Rightarrow> [[]] | c # cs \<Rightarrow> if P c then [cs, c # cs] else [c # cs])"
| "rmatch (Star P) s = starRests P s"
| "rmatch (Plus P) s = (case s of [] \<Rightarrow> [] | c # cs \<Rightarrow> if P c then starRests P cs else [])"
| "rmatch (Alt a b) s = rmatch a s @ rmatch b s"
| "rmatch (Seq a b) s = concat (map (rmatch b) (rmatch a s))"

text \<open>\<open>s.replace(/^R/, '')\<close>: the first match in backtracking order is removed.\<close>

definition replaceAnchored :: "regex \<Rightarrow> jsstring \<Rightarrow> jsstring" where
  "replaceAnchored r s = (case rmatch r s of [] \<Rightarrow> s | t # _ \<Rightarrow> t)"

section \<open>The text cleaner\<close>

text \<open>The class of white space, \<open>.\<close>, \<open>:\<close>, the fullwidth colon U+FF1A, \<open>-\<close> and the ideographic comma U+3001.\<close>

definition labelSepClass :: "nat \<Rightarrow> bool" where
  "labelSepClass c = (isSpace c \<or> c = 0x2E \<or> c = 0x3A \<or> c = 0xFF1A \<or> c = 0x2D \<or> c = 0x3001)"

text \<open>The openers: ASCII \<open>(\<close>, the lenticular bracket U+3010, ASCII \<open>[\<close>; the closers: \<open>)\<close>, \<open>]\<close>, U+3011.\<close>

definition openerClass :: "nat \<Rightarrow> bool" where
  "openerClass c = (c = 0x28 \<or> c = 0x3010 \<or> c = 0x5B)"

definition closerClass :: "nat \<Rightarrow> bool" where
  "closerClass c = (c = 0x29 \<or> c = 0x5D \<or> c = 0x3011)"

text \<open>The separators U+3001, \<open>.\<close>, U+FF0E, \<open>:\<close>, U+FF1A, \<open>)\<close>, \<open>-\<close>, U+3001.\<close>

definition numberSepClass :: "nat \<Rightarrow> bool" where
  "numberSepClass c = (c = 0x3001 \<or> c = 0x2E \<or> c = 0xFF0E \<or> c = 0x3A \<or> c = 0xFF1A
     \<or> c = 0x29 \<or> c = 0x2D \<or> c = 0x3001)"

definition colonClass :: "nat \<Rightarrow> bool" where
  "colonClass c = (c = 0x3A \<or> c = 0xFF1A)"

text \<open>
  The labelled number: one of Q, Question, U+9898 U+76EE, U+95EE U+9898, Case,
  U+6848 U+4F8B, U+4E60 U+9898 (under the \<open>i\<close> flag), white space, one or more digits,
  any number of label separators, white space.
\<close>

definition labelledNumberRe :: regex where
  "labelledNumberRe =
     Seq (Alt (LitI (js ''Q'')) (Alt (LitI (js ''Question'')) (Alt (LitI [0x9898, 0x76EE])
            (Alt (LitI [0x95EE, 0x9898]) (Alt (LitI (js ''Case'')) (Alt (LitI [0x6848, 0x4F8B])
              (LitI [0x4E60, 0x9898])))))))
       (Seq (Star isSpace) (Seq (Plus isDigit) (Seq (Star labelSepClass) (Star isSpace))))"

text \<open>
  The bare number: an optional opener, one or more digits, an optional closer, white
  space, one separator, white space.
\<close>

definition numberRe :: regex where
  "numberRe =
     Seq (Opt openerClass) (Seq (Plus isDigit) (Seq (Opt closerClass)
       (Seq (Star isSpace) (Seq (Class numberSepClass) (Star isSpace)))))"

text \<open>The circled digit one, U+2460, and the white space after it.\<close>

definition circledRe :: regex where
  "circledRe = Seq (Lit [0x2460]) (Star isSpace)"

text \<open>
  The bare label: U+9898 U+76EE, U+95EE U+9898 or Question (under the \<open>i\<close> flag), a colon
  (ASCII or U+FF1A), white space.
\<close>

definition bareLabelRe :: regex where
  "bareLabelRe =
     Seq (Alt (LitI [0x9898, 0x76EE]) (Alt (LitI [0x95EE, 0x9898]) (LitI (js ''Question''))))
       (Seq (Class colonClass) (Star isSpace))"

definition cleanQuestionPrefix :: "jsstring \<Rightarrow> jsstring" where
  "cleanQuestionPrefix text =
     (let cleaned = trim text;
          cleaned = replaceAnchored labelledNumberRe cleaned;
          cleaned = replaceAnchored numberRe cleaned;
          cleaned = replaceAnchored circledRe cleaned;
          cleaned = replaceAnchored bareLabelRe cleaned
      in trim cleaned)"

subsection \<open>Prefixes, labels and bodies\<close>

text \<open>
  The vocabulary of the statements about the cleaner. \<open>leads r s t\<close>: the expression \<open>r\<close>
  matches at the start of \<open>s\<close>, and the match the backtracking search finds first leaves \<open>t\<close>.
\<close>

definition leads :: "regex \<Rightarrow> jsstring \<Rightarrow> jsstring \<Rightarrow> bool" where
  "leads r s t = (\<exists>ts. rmatch r s = t # ts)"

text \<open>
  The seven labels of the labelled-number expression and the three of the bare-label
  expression, in the order of their alternatives; \<open>isLabel labels l\<close>: \<open>l\<close> is one of the
  labels up to the case of its ASCII letters, as the \<open>i\<close> flag compares.
\<close>

definition numberedLabels :: "jsstring list" where
  "numberedLabels = [js ''Q'', js ''Question'', [0x9898, 0x76EE], [0x95EE, 0x9898], js ''Case'',
     [0x6848, 0x4F8B], [0x4E60, 0x9898]]"

definition bareLabels :: "jsstring list" where
  "bareLabels = [[0x9898, 0x76EE], [0x95EE, 0x9898], js ''Question'']"

definition isLabel :: "jsstring list \<Rightarrow> jsstring \<Rightarrow> bool" where
  "isLabel labels l = (map canonicalize l \<in> set (map (map canonicalize) labels))"

text \<open>A body: a text that is not empty and has no white space at either end.\<close>

definition isTrimmed :: "jsstring \<Rightarrow> bool" where
  "isTrimmed x = (x \<noteq> [] \<and> \<not> isSpace (hd x) \<and> \<not> isSpace (last x))"

text \<open>\<open>strippable s\<close>: one of the four expressions of the cleaner matches at the start of \<open>s\<close>.\<close>

definition strippable :: "jsstring \<Rightarrow> bool" where
  "strippable s = (rmatch labelledNumberRe s \<noteq> [] \<or> rmatch numberRe s \<noteq> []
     \<or> rmatch circledRe s \<noteq> [] \<or> rmatch bareLabelRe s \<noteq> [])"

text \<open>\<open>consuming r\<close>: by its shape, \<open>r\<close> matches no empty string.\<close>

fun consuming :: "regex \<Rightarrow> bool" where
  "consuming (Lit w) = (w \<noteq> [])"
| "consuming (LitI w) = (w \<noteq> [])"
| "consuming (Class P) = True"
| "consuming (Opt P) = False"
| "consuming (Star P) = False"
| "consuming (Plus P) = True"
| "consuming (Alt a b) = (consuming a \<and> consuming b)"
| "consuming (Seq a b) = (consuming a \<or> consuming b)"

section \<open>Fingerprints and the duplicate filter\<close>

text \<open>The characters a fingerprint keeps: U+4E00..U+9FA5, \<open>a-z\<close>, \<open>A-Z\<close>, \<open>0-9\<close>.\<close>

definition isFingerprintChar :: "nat \<Rightarrow> bool" where
  "isFingerprintChar c = ((0x4E00 \<le> c \<and> c \<le> 0x9FA5) \<or> (0x61 \<le> c \<and> c \<le> 0x7A)
     \<or> (0x41 \<le> c \<and> c \<le> 0x5A) \<or> (0x30 \<le> c \<and> c \<le> 0x39))"

definition fingerprint :: "jsstring \<Rightarrow> jsstring" where
  "fingerprint text = filter isFingerprintChar text"

datatype QuestionType = SINGLE_CHOICE | MULTI_CHOICE | TRUE_FALSE | MATCHING | ORDERING
  | FILL_IN_BLANK | SHORT_ANSWER | NOUN_EXPLANATION | ANALYSIS | FLASHCARD

text \<open>
  A value produced by \<open>JSON.parse\<close>. A number is kept as its lexeme; the members of an
  object are kept in the order of the text.
\<close>

datatype json = JNull | JBool bool | JNumber jsstring | JString jsstring
  | JArray "json list" | JObject "(jsstring \<times> json) list"

text \<open>
  The interface \<open>Question\<close>. The field \<open>correctAnswer\<close> is declared
  \<open>string | string[]\<close>; at run time it holds whatever the answer normalisation produced.
\<close>

record Question =
  qid :: jsstring
  qtype :: QuestionType
  questionText :: jsstring
  options :: "jsstring list"
  correctAnswer :: json
  explanation :: jsstring

definition MIN_LEN_FOR_FUZZY :: nat where
  "MIN_LEN_FOR_FUZZY = 10"

definition prefixLen :: nat where
  "prefixLen = 15"

text \<open>
  The inner loop over the accepted fingerprints: the result is the flag \<open>isDuplicate\<close>
  when the loop ends or breaks.
\<close>

fun isDuplicate :: "jsstring \<Rightarrow> jsstring list \<Rightarrow> bool" where
  "isDuplicate currentFingerprint [] = False"
| "isDuplicate currentFingerprint (existingFP # rest) =
     (if currentFingerprint = existingFP then True
      else if length currentFingerprint > MIN_LEN_FOR_FUZZY \<and> length existingFP > MIN_LEN_FOR_FUZZY
      then (if includesStr currentFingerprint existingFP \<or> includesStr existingFP currentFingerprint
            then True
            else if substring0 currentFingerprint prefixLen = substring0 existingFP prefixLen
            then True
            else isDuplicate currentFingerprint rest)
      else isDuplicate currentFingerprint rest)"

text \<open>
  The outer loop: the state is the pair of \<open>uniqueQuestions\<close> and
  \<open>acceptedFingerprints\<close>; every question has its text cleaned in place first.
\<close>

fun dedupLoop :: "Question list \<Rightarrow> Question list \<Rightarrow> jsstring list \<Rightarrow> Question list" where
  "dedupLoop [] uniqueQuestions acceptedFingerprints = uniqueQuestions"
| "dedupLoop (q # qs) uniqueQuestions acceptedFingerprints =
     (let q' = q\<lparr>questionText := cleanQuestionPrefix (questionText q)\<rparr>;
          currentFingerprint = fingerprint (questionText q')
      in if length currentFingerprint = 0 then dedupLoop qs uniqueQuestions acceptedFingerprints
         else if isDuplicate currentFingerprint acceptedFingerprints
         then dedupLoop qs uniqueQuestions acceptedFingerprints
         else dedupLoop qs (uniqueQuestions @ [q']) (acceptedFingerprints @ [currentFingerprint]))"

definition deduplicate :: "Question list \<Rightarrow> Question list" where
  "deduplicate questions = dedupLoop questions [] []"

text \<open>A question of a fixed shape with the given text, for the examples.\<close>

definition exampleQuestion :: "jsstring \<Rightarrow> Question" where
  "exampleQuestion text = \<lparr>qid = js ''q'', qtype = SHORT_ANSWER, questionText = text, options = [],
     correctAnswer = JString (js ''a''), explanation = js ''e''\<rparr>"

text \<open>
  The three question texts of the deduplication example: U+4EC0 U+4E48 U+662F U+5149
  U+5408 U+4F5C U+7528 U+FF1F; the same text after U+8BF7 U+95EE; and U+5B8C U+5168 U+4E0D U+540C
  U+7684 U+95EE U+9898 U+5185 U+5BB9 U+6D4B U+8BD5 U+4E00 U+4E0B.
\<close>

definition dedupText1 :: jsstring where
  "dedupText1 = [0x4EC0, 0x4E48, 0x662F, 0x5149, 0x5408, 0x4F5C, 0x7528, 0xFF1F]"

definition dedupText2 :: jsstring where
  "dedupText2 = [0x8BF7, 0x95EE, 0x4EC0, 0x4E48, 0x662F, 0x5149, 0x5408, 0x4F5C, 0x7528, 0xFF1F]"

definition dedupText3 :: jsstring where
  "dedupText3 = [0x5B8C, 0x5168, 0x4E0D, 0x540C, 0x7684, 0x95EE, 0x9898, 0x5185, 0x5BB9, 0x6D4B,
     0x8BD5, 0x4E00, 0x4E0B]"

text \<open>The text U+FF08 2 U+FF09 U+793A U+4F8B, whose parentheses are the fullwidth ones.\<close>

definition fullwidthExample :: jsstring where
  "fullwidthExample = [0xFF08, 0x32, 0xFF09, 0x793A, 0x4F8B]"


section \<open>The shard planner\<close>

text \<open>
  The loop that fills \<open>batchCounts\<close>. The numbers are the integers; with a batch size
  below 1 and a positive count the loop never ends, which is the value \<open>None\<close>.
\<close>

partial_function (option) planLoop :: "int \<Rightarrow> int \<Rightarrow> int list \<Rightarrow> int list option" where
  "planLoop remaining userBatchSize batchCounts =
     (if remaining > 0
      then (let currentBatch = min remaining userBatchSize
            in planLoop (remaining - currentBatch) userBatchSize (batchCounts @ [currentBatch]))
      else Some batchCounts)"

definition shardPlan :: "int \<Rightarrow> int \<Rightarrow> int list option" where
  "shardPlan questionCount userBatchSize = planLoop questionCount userBatchSize []"


section \<open>The retrying call executor\<close>

text \<open>
  The operation \<open>fn\<close> is a function of the state of the world that returns its
  outcome (\<open>Inl\<close> a rejection) and the new state. The effects of a run are recorded in
  order: a call of \<open>fn\<close>, the two console lines, the line given to \<open>onLog\<close> (when the
  caller passed one) and the sleeps. The retry message is kept as the pair of the action
  name and the attempt number \<open>4 - retries\<close> that it is built from. Delays are exact
  rationals.
\<close>

datatype retryEffect = CallFn | ConsoleError | ConsoleWarn jsstring int | OnLog jsstring int
  | Sleep rat

function callWithRetry ::
  "('s \<Rightarrow> ('e + 'a) \<times> 's) \<Rightarrow> jsstring \<Rightarrow> int \<Rightarrow> rat \<Rightarrow> bool \<Rightarrow> 's
     \<Rightarrow> ('e + 'a) \<times> 's \<times> retryEffect list" where
  "callWithRetry fn actionName retries delay onLog s =
     (case fn s of
        (Inr v, s') \<Rightarrow> (Inr v, s', [CallFn])
      | (Inl error, s') \<Rightarrow>
          if retries \<le> 0 then (Inl error, s', [CallFn, ConsoleError])
          else
            (let attempt = 4 - retries;
                 (r, s'', effects) = callWithRetry fn actionName (retries - 1) (delay * (3 / 2)) onLog s'
             in (r, s'', [CallFn, ConsoleWarn actionName attempt]
                   @ (if onLog then [OnLog actionName attempt] else [])
                   @ [Sleep delay] @ effects)))"
  by pat_completeness auto
termination
  by (relation "measure (\<lambda>(fn, actionName, retries, delay, onLog, s). nat retries)") auto

definition sleeps :: "retryEffect list \<Rightarrow> rat list" where
  "sleeps effects = concat (map (\<lambda>e. case e of Sleep d \<Rightarrow> [d] | _ \<Rightarrow> []) effects)"

definition isCallOrSleep :: "retryEffect \<Rightarrow> bool" where
  "isCallOrSleep e = (case e of CallFn \<Rightarrow> True | Sleep d \<Rightarrow> True | _ \<Rightarrow> False)"

definition alwaysFails :: "('s \<Rightarrow> ('e + 'a) \<times> 's) \<Rightarrow> bool" where
  "alwaysFails fn = (\<forall>s. isl (fst (fn s)))"

section \<open>The JSON parser of the host language\<close>

text \<open>
  The JSON grammar of the language standard, as a recursive-descent parser: white space
  is TAB, LF, CR and SPACE; a string has no raw control character, and a backslash
  starts one of the escapes for the quote, the backslash, the slash, b, f, n, r, t and
  u with four hexadecimal digits; a number is an optional minus, an integer part, an
  optional fraction and an optional exponent. A parser returns the value and the rest
  of the text; \<open>None\<close> is the syntax error.
\<close>

definition isJsonSpace :: "nat \<Rightarrow> bool" where
  "isJsonSpace c = (c = 0x09 \<or> c = 0x0A \<or> c = 0x0D \<or> c = 0x20)"

definition skipWs :: "jsstring \<Rightarrow> jsstring" where
  "skipWs s = dropWhile isJsonSpace s"

definition hexValue :: "nat \<Rightarrow> nat option" where
  "hexValue c = (if 0x30 \<le> c \<and> c \<le> 0x39 then Some (c - 0x30)
     else if 0x41 \<le> c \<and> c \<le> 0x46 then Some (c - 0x41 + 10)
     else if 0x61 \<le> c \<and> c \<le> 0x66 then Some (c - 0x61 + 10)
     else None)"

definition unescape :: "nat \<Rightarrow> nat option" where
  "unescape c = (if c = 0x22 then Some 0x22 else if c = 0x5C then Some 0x5C
     else if c = 0x2F then Some 0x2F else if c = 0x62 then Some 0x08
     else if c = 0x66 then Some 0x0C else if c = 0x6E then Some 0x0A
     else if c = 0x72 then Some 0x0D else if c = 0x74 then Some 0x09 else None)"

definition consChar :: "nat \<Rightarrow> (jsstring \<times> jsstring) option \<Rightarrow> (jsstring \<times> jsstring) option" where
  "consChar c r = (case r of None \<Rightarrow> None | Some (str, rest) \<Rightarrow> Some (c # str, rest))"

fun lexString :: "jsstring \<Rightarrow> (jsstring \<times> jsstring) option" where
  "lexString [] = None"
| "lexString (c # cs) =
     (if c = 0x22 then Some ([], cs)
      else if c = 0x5C then
        (case cs of
           [] \<Rightarrow> None
         | e # cs1 \<Rightarrow>
             if e = 0x75 then
               (case cs1 of
                  h1 # h2 # h3 # h4 # cs2 \<Rightarrow>
                    (case (hexValue h1, hexValue h2, hexValue h3, hexValue h4) of
                       (Some d1, Some d2, Some d3, Some d4) \<Rightarrow>
                         consChar (((d1 * 16 + d2) * 16 + d3) * 16 + d4) (lexString cs2)
                     | _ \<Rightarrow> None)
                | _ \<Rightarrow> None)
             else (case unescape e of None \<Rightarrow> None | Some ch \<Rightarrow> consChar ch (lexString cs1)))
      else if c < 0x20 then None
      else consChar c (lexString cs))"

definition lexDigits :: "jsstring \<Rightarrow> (jsstring \<times> jsstring) option" where
  "lexDigits s = (if takeWhile isDigit s = [] then None
     else Some (takeWhile isDigit s, dropWhile isDigit s))"

definition lexInt :: "jsstring \<Rightarrow> (jsstring \<times> jsstring) option" where
  "lexInt s = (case s of [] \<Rightarrow> None
     | c # cs \<Rightarrow> if c = 0x30 then Some ([c], cs) else lexDigits s)"

definition lexFrac :: "jsstring \<Rightarrow> (jsstring \<times> jsstring) option" where
  "lexFrac s = (case s of [] \<Rightarrow> Some ([], [])
     | c # cs \<Rightarrow> if c = 0x2E then
         (case lexDigits cs of None \<Rightarrow> None | Some (ds, rest) \<Rightarrow> Some (c # ds, rest))
       else Some ([], s))"

definition lexExp :: "jsstring \<Rightarrow> (jsstring \<times> jsstring) option" where
  "lexExp s = (case s of [] \<Rightarrow> Some ([], [])
     | c # cs \<Rightarrow> if c = 0x65 \<or> c = 0x45 then
         (case cs of [] \<Rightarrow> None
          | g # cs1 \<Rightarrow> if g = 0x2B \<or> g = 0x2D then
               (case lexDigits cs1 of None \<Rightarrow> None | Some (ds, rest) \<Rightarrow> Some (c # g # ds, rest))
             else (case lexDigits cs of None \<Rightarrow> None | Some (ds, rest) \<Rightarrow> Some (c # ds, rest)))
       else Some ([], s))"

definition lexNumber :: "jsstring \<Rightarrow> (jsstring \<times> jsstring) option" where
  "lexNumber s =
     (let (sign, s1) = (case s of [] \<Rightarrow> ([], []) | c # cs \<Rightarrow> if c = 0x2D then ([c], cs) else ([], s))
      in case lexInt s1 of None \<Rightarrow> None
         | Some (i, s2) \<Rightarrow>
            (case lexFrac s2 of None \<Rightarrow> None
             | Some (f, s3) \<Rightarrow>
                (case lexExp s3 of None \<Rightarrow> None
                 | Some (e, s4) \<Rightarrow> Some (sign @ i @ f @ e, s4))))"

text \<open>What the string lexer returns is shorter than its input.\<close>

lemma consChar_Some: "consChar c r = Some (str, rest) \<Longrightarrow> \<exists>str'. r = Some (str', rest)"
  by (auto simp: consChar_def split: option.splits)

lemma lexString_step:
  "lexString (c # cs) = Some (str, rest) \<Longrightarrow>
   rest = cs \<or> (\<exists>cs' str'. lexString cs' = Some (str', rest) \<and> length cs' \<le> length cs)"
  by (auto split: if_splits list.splits option.splits dest!: consChar_Some)

lemma lexString_length: "lexString s = Some (str, rest) \<Longrightarrow> length rest < length s"
proof (induction "length s" arbitrary: s str rest rule: less_induct)
  case less
  show ?case
  proof (cases s)
    case Nil
    with less.prems show ?thesis by simp
  next
    case (Cons c cs)
    from lexString_step[OF less.prems[unfolded Cons]]
    consider "rest = cs"
      | cs' str' where "lexString cs' = Some (str', rest)" "length cs' \<le> length cs"
      by blast
    then show ?thesis
    proof cases
      case 1
      with Cons show ?thesis by simp
    next
      case 2
      with Cons have "length cs' < length s" by simp
      from less.hyps[OF this 2(1)] 2(2) Cons show ?thesis by simp
    qed
  qed
qed


lemma skipWs_length: "length (skipWs s) \<le> length s"
  by (simp add: skipWs_def length_dropWhile_le)

lemma skipWs_Cons_length: "skipWs r = c # cs \<Longrightarrow> length (skipWs cs) < length r"
  using skipWs_length[of r] skipWs_length[of cs] by simp

text \<open>
  The parsers of values, of the elements of an array after its opening bracket and of
  the members of an object after its opening brace. The tests \<open>length r < length s\<close>
  make the recursion well-founded; they never fail (lemma \<open>parse_consumes\<close>).
\<close>

function parseValue :: "jsstring \<Rightarrow> (json \<times> jsstring) option"
  and parseElements :: "json list \<Rightarrow> jsstring \<Rightarrow> (json \<times> jsstring) option"
  and parseMembers :: "(jsstring \<times> json) list \<Rightarrow> jsstring \<Rightarrow> (json \<times> jsstring) option"
where
  "parseValue s =
     (case s of
        [] \<Rightarrow> None
      | c # cs \<Rightarrow>
          if c = 0x22 then
            (case lexString cs of None \<Rightarrow> None | Some (str, rest) \<Rightarrow> Some (JString str, rest))
          else if c = 0x5B then
            (case skipWs cs of
               [] \<Rightarrow> None
             | d # ds \<Rightarrow> if d = 0x5D then Some (JArray [], ds) else parseElements [] (skipWs cs))
          else if c = 0x7B then
            (case skipWs cs of
               [] \<Rightarrow> None
             | d # ds \<Rightarrow> if d = 0x7D then Some (JObject [], ds) else parseMembers [] (skipWs cs))
          else if startsWith s (js ''true'') then Some (JBool True, drop 4 s)
          else if startsWith s (js ''false'') then Some (JBool False, drop 5 s)
          else if startsWith s (js ''null'') then Some (JNull, drop 4 s)
          else (case lexNumber s of None \<Rightarrow> None | Some (n, rest) \<Rightarrow> Some (JNumber n, rest)))"
| "parseElements acc s =
     (case parseValue s of
        None \<Rightarrow> None
      | Some (v, r) \<Rightarrow>
          if length r < length s then
            (case skipWs r of
               [] \<Rightarrow> None
             | c # cs \<Rightarrow>
                 if c = 0x2C then parseElements (acc @ [v]) (skipWs cs)
                 else if c = 0x5D then Some (JArray (acc @ [v]), cs)
                 else None)
          else None)"
| "parseMembers acc s =
     (case s of
        [] \<Rightarrow> None
      | q # qs \<Rightarrow>
          if q = 0x22 then
            (case lexString qs of
               None \<Rightarrow> None
             | Some (key, r) \<Rightarrow>
                 (case skipWs r of
                    [] \<Rightarrow> None
                  | c # cs \<Rightarrow>
                      if c = 0x3A then
                        (case parseValue (skipWs cs) of
                           None \<Rightarrow> None
                         | Some (v, r2) \<Rightarrow>
                             if length r2 < length s then
                               (case skipWs r2 of
                                  [] \<Rightarrow> None
                                | d # ds \<Rightarrow>
                                    if d = 0x2C then parseMembers (acc @ [(key, v)]) (skipWs ds)
                                    else if d = 0x7D then Some (JObject (acc @ [(key, v)]), ds)
                                    else None)
                             else None)
                      else None))
          else None)"
  by pat_completeness auto
termination
proof (relation "measure (\<lambda>x. case x of Inl s \<Rightarrow> 2 * length s
          | Inr (Inl (acc, s)) \<Rightarrow> 2 * length s + 1
          | Inr (Inr (acc, s)) \<Rightarrow> 2 * length s + 1)", goal_cases)
  case 1
  then show ?case by simp
next
  case (2 s c cs d ds)
  then show ?case using skipWs_length[of cs] by simp
next
  case (3 s c cs d ds)
  then show ?case using skipWs_length[of cs] by simp
next
  case (4 acc s)
  then show ?case by simp
next
  case (5 acc s x v r c cs)
  then show ?case using skipWs_Cons_length[of r c cs] by simp
next
  case (6 acc s q qs x key r c cs)
  then show ?case
    using lexString_length[of qs key r] skipWs_Cons_length[of r c cs] by simp
next
  case (7 acc s q qs x key r c cs x2 v r2 d ds)
  then show ?case using skipWs_Cons_length[of r2 d ds] by simp
qed

text \<open>\<open>JSON.parse(text)\<close>: one value between white space, and nothing after it.\<close>

definition JSON_parse :: "jsstring \<Rightarrow> json option" where
  "JSON_parse text =
     (case parseValue (skipWs text) of
        None \<Rightarrow> None
      | Some (v, rest) \<Rightarrow> if skipWs rest = [] then Some v else None)"

declare parseValue.simps [simp del] parseElements.simps [simp del] parseMembers.simps [simp del]

section \<open>The answer normaliser and the shard generator\<close>

text \<open>The separators of the fallback split: the comma, U+FF0C and U+3001.\<close>

definition isAnswerSeparator :: "nat \<Rightarrow> bool" where
  "isAnswerSeparator c = (c = 0x2C \<or> c = 0xFF0C \<or> c = 0x3001)"

text \<open>
  \<open>str.split(/[sep]/)\<close>: the pieces between the separators, empty pieces included.
\<close>

fun split :: "(nat \<Rightarrow> bool) \<Rightarrow> jsstring \<Rightarrow> jsstring list" where
  "split sep [] = [[]]"
| "split sep (c # cs) =
     (if sep c then [] # split sep cs
      else (case split sep cs of [] \<Rightarrow> [[c]] | piece # pieces \<Rightarrow> (c # piece) # pieces))"

text \<open>
  The body of the \<open>try\<close> block that computes \<open>cleanAnswer\<close> from \<open>q.type\<close> and
  \<open>q.correctAnswer\<close>. The only statement of the block that can throw is
  \<open>JSON.parse\<close>, whose failure the inner \<open>catch\<close> turns into the split.
\<close>

definition complexTypes :: "QuestionType list" where
  "complexTypes = [MULTI_CHOICE, ORDERING, MATCHING, FILL_IN_BLANK]"

definition normalizeAnswer :: "QuestionType \<Rightarrow> json \<Rightarrow> json" where
  "normalizeAnswer t answer =
     (if t \<in> set complexTypes then
        (case answer of
           JString str \<Rightarrow>
             if startsWith (trim str) (js ''['') \<or> includesStr str (js '','') then
               (case JSON_parse str of
                  Some parsed \<Rightarrow> parsed
                | None \<Rightarrow> JArray (map (\<lambda>s. JString (trim s)) (split isAnswerSeparator str)))
             else JArray [JString str]
         | _ \<Rightarrow> answer)
      else answer)"

text \<open>\<open>Array.isArray\<close>.\<close>

definition isSequence :: "json \<Rightarrow> bool" where
  "isSequence v = (case v of JArray xs \<Rightarrow> True | _ \<Rightarrow> False)"


text \<open>
  A raw record of the response, with the field types of the response schema; the answer
  is any JSON value.
\<close>

record RawQuestion =
  raw_type :: QuestionType
  raw_questionText :: jsstring
  raw_options :: "jsstring list option"
  raw_correctAnswer :: json
  raw_explanation :: jsstring

text \<open>\<open>xs.map((x, i) => f(x, i))\<close>, with the index of the first element.\<close>

fun mapIndexed :: "('a \<Rightarrow> nat \<Rightarrow> 'b) \<Rightarrow> nat \<Rightarrow> 'a list \<Rightarrow> 'b list" where
  "mapIndexed f i [] = []"
| "mapIndexed f i (x # xs) = f x i # mapIndexed f (Suc i) xs"

text \<open>The decimal digits of a number, as template literals print it.\<close>

fun showNat :: "nat \<Rightarrow> jsstring" where
  "showNat n = (if n < 10 then [0x30 + n] else showNat (n div 10) @ [0x30 + n mod 10])"

declare showNat.simps [simp del]

text \<open>
  The callback of \<open>parsed.questions.map\<close>. The identifier is \<open>q-NOW-BATCH-INDEX\<close>, where
  \<open>now\<close> is the value of the clock when the record is mapped.
\<close>

definition toQuestion :: "nat \<Rightarrow> nat \<Rightarrow> RawQuestion \<Rightarrow> nat \<Rightarrow> Question" where
  "toQuestion now batchIndex q index =
     \<lparr>qid = js ''q-'' @ showNat now @ js ''-'' @ showNat batchIndex @ js ''-'' @ showNat index,
      qtype = raw_type q,
      questionText = raw_questionText q,
      options = (case raw_options q of None \<Rightarrow> [] | Some os \<Rightarrow> os),
      correctAnswer = normalizeAnswer (raw_type q) (raw_correctAnswer q),
      explanation = raw_explanation q\<rparr>"

text \<open>
  The errors a run can reject with: a rejection of the backend call (with a code that
  stands for the error object), the empty response of a batch, and the failure to decode
  the text of a response.
\<close>

datatype error = BackendError nat | EmptyResponse nat | DecodeError

text \<open>
  What the backend answers to a generation call: no text, a text that is not the JSON
  of the schema, or the records of the \<open>questions\<close> array.
\<close>

datatype responseBody = NoText | Undecodable | Records "RawQuestion list"

text \<open>The label U+751F U+6210 U+7B2C N U+7EC4 U+9898 U+76EE of the retry line.\<close>

definition batchActionName :: "nat \<Rightarrow> jsstring" where
  "batchActionName batchIndex =
     [0x751F, 0x6210, 0x7B2C, 0x20] @ showNat (batchIndex + 1) @ [0x20, 0x7EC4, 0x9898, 0x76EE]"

text \<open>
  \<open>generateBatchQuestions\<close>: \<open>respond k\<close> is the outcome of the \<open>k\<close>-th call of the
  backend for this batch, \<open>clock index\<close> the time at which record \<open>index\<close> is mapped.
  The prompt is not modelled. The result is the effects of the retrying executor and the
  questions or the rejection.
\<close>

definition generateBatchQuestions ::
  "(nat \<Rightarrow> error + responseBody) \<Rightarrow> (nat \<Rightarrow> nat) \<Rightarrow> nat \<Rightarrow> bool
     \<Rightarrow> retryEffect list \<times> (error + Question list)" where
  "generateBatchQuestions respond clock batchIndex onBatchLog =
     (case callWithRetry (\<lambda>k. (respond k, Suc k)) (batchActionName batchIndex) 3 2000 onBatchLog 0 of
        (Inl e, attempts, effects) \<Rightarrow> (effects, Inl e)
      | (Inr NoText, attempts, effects) \<Rightarrow> (effects, Inl (EmptyResponse (batchIndex + 1)))
      | (Inr Undecodable, attempts, effects) \<Rightarrow> (effects, Inl DecodeError)
      | (Inr (Records qs), attempts, effects) \<Rightarrow>
          (effects, Inr (mapIndexed (\<lambda>q index. toQuestion (clock index) batchIndex q index) 0 qs)))"

section \<open>The external context enricher\<close>

datatype SearchEngine = google_native | baidu_search1 | google_serper | tavily

datatype ShardingMode = SERIAL | PARALLEL

text \<open>
  The lines given to \<open>onLog\<close>, each kept as the values its template is filled with.
\<close>

datatype logMessage =
    MsgStart
  | MsgEngine SearchEngine
  | MsgScanning
  | MsgSkipSearch
  | MsgKeywords jsstring
  | MsgSearching
  | MsgSearchDone
  | MsgSearchFailed
  | MsgSharding
  | MsgConfig int nat int ShardingMode
  | MsgSerialWait int
  | MsgShardStart nat nat
  | MsgProgress nat int
  | MsgParallelStart int nat
  | MsgLaunch nat nat
  | MsgAllLaunched
  | MsgRetry jsstring int
  | MsgCleaning
  | MsgFiltered nat nat
  | MsgSuccess

type_synonym logEntry = "logMessage \<times> int"

record Material =
  material_id :: jsstring
  material_name :: jsstring
  mimeType :: jsstring
  material_data :: jsstring
  material_size :: nat

record SearchResult =
  title :: jsstring
  snippet :: jsstring
  link :: jsstring

text \<open>
  The collaborators of the enricher: the answer to the keyword extraction call (its
  \<open>text\<close> may be undefined), the answer to the grounded search call (its \<open>text\<close> and the
  titles of its grounding chunks, each of which may be undefined) and the results of a
  search provider, which never throws.
\<close>

record Enrichment =
  keywordResp :: "error + jsstring option"
  nativeSearch :: "jsstring \<Rightarrow> error + (jsstring option \<times> jsstring option list option)"
  providerSearch :: "SearchEngine \<Rightarrow> jsstring \<Rightarrow> SearchResult list"

datatype enrichEffect = EnrichLog logMessage int | KeywordCall | NativeSearchCall jsstring
  | ProviderCall SearchEngine jsstring | EnrichConsoleError

text \<open>The label U+5173 U+952E U+8BCD or Keywords under the \<open>i\<close> flag, and a colon.\<close>

definition keywordLabelRe :: regex where
  "keywordLabelRe = Seq (Alt (LitI [0x5173, 0x952E, 0x8BCD]) (LitI (js ''Keywords''))) (Class colonClass)"

definition extractKeywords :: "jsstring option \<Rightarrow> jsstring" where
  "extractKeywords text =
     (let keywords = (case text of None \<Rightarrow> [] | Some t \<Rightarrow> trim t)
      in trim (replaceAnchored keywordLabelRe keywords))"

definition isNone :: "jsstring \<Rightarrow> bool" where
  "isNone keywords = (keywords = js ''NONE'' \<or> keywords = js ''None'' \<or> keywords = js ''none'')"

text \<open>
  The markers U+5B8C U+6574, U+63D0 U+4F9B, U+6CA1 U+6709 U+7F3A U+5931 and U+65E0 U+9700.
\<close>

definition isChattyCompleteness :: "jsstring \<Rightarrow> bool" where
  "isChattyCompleteness keywords =
     (length keywords > 40 \<and> (includesStr keywords [0x5B8C, 0x6574] \<or> includesStr keywords [0x63D0, 0x4F9B]
        \<or> includesStr keywords [0x6CA1, 0x6709, 0x7F3A, 0x5931] \<or> includesStr keywords [0x65E0, 0x9700]))"

fun join :: "jsstring \<Rightarrow> jsstring list \<Rightarrow> jsstring" where
  "join sep [] = []"
| "join sep [x] = x"
| "join sep (x # y # ys) = x @ sep @ join sep (y # ys)"

text \<open>The trailer of sources: the titles that are defined and not empty.\<close>

definition sourcesTrailer :: "jsstring option list \<Rightarrow> jsstring" where
  "sourcesTrailer chunks =
     [0x0A, 0x5B, 0x6765, 0x6E90, 0x5D, 0x3A, 0x20]
       @ join (js '', '') (concat (map (\<lambda>t. case t of None \<Rightarrow> [] | Some x \<Rightarrow> if x = [] then [] else [x]) chunks))"

definition formatResult :: "SearchResult \<Rightarrow> nat \<Rightarrow> jsstring" where
  "formatResult r i =
     [0x5B, 0x53C2, 0x8003, 0x6E90, 0x20] @ showNat (i + 1) @ [0x5D, 0x20, 0x6807, 0x9898, 0x3A, 0x20]
       @ title r @ [0x0A, 0x6458, 0x8981, 0x5185, 0x5BB9, 0x3A, 0x20] @ snippet r"

definition contextHeader :: jsstring where
  "contextHeader = [0x0A] @ replicate 12 0x20 @ [0x0A, 0x2D, 0x2D, 0x2D, 0x20, 0x5916, 0x90E8, 0x7F51,
     0x7EDC, 0x53C2, 0x8003, 0x8D44, 0x6599, 0x20, 0x28, 0x4F18, 0x5148, 0x4F7F, 0x7528, 0x6B64, 0x8D44,
     0x6599, 0x8865, 0x5168, 0x201C, 0x7565, 0x201D, 0x6216, 0x201C, 0x65E0, 0x7B54, 0x6848, 0x201D,
     0x7684, 0x9898, 0x76EE, 0x29, 0x20, 0x2D, 0x2D, 0x2D, 0x0A] @ replicate 12 0x20"

definition contextFooter :: jsstring where
  "contextFooter = [0x0A] @ replicate 12 0x20 @ [0x0A, 0x2D, 0x2D, 0x2D, 0x20, 0x8D44, 0x6599, 0x7ED3,
     0x675F, 0x20, 0x2D, 0x2D, 0x2D, 0x0A, 0x0A] @ replicate 12 0x20"

text \<open>Step 2 of the enricher: the call it makes and the search context, or the rejection.\<close>

definition performSearch ::
  "SearchEngine \<Rightarrow> Enrichment \<Rightarrow> jsstring \<Rightarrow> enrichEffect list \<times> (error + jsstring)" where
  "performSearch activeEngine env keywords =
     (if activeEngine = google_native then
        ([NativeSearchCall keywords],
         case nativeSearch env keywords of
           Inl e \<Rightarrow> Inl e
         | Inr (text, chunks) \<Rightarrow>
             Inr ((case text of None \<Rightarrow> [] | Some t \<Rightarrow> t)
                  @ (case chunks of None \<Rightarrow> [] | Some cs \<Rightarrow> sourcesTrailer cs)))
      else
        (let provider = (if activeEngine = baidu_search1 then baidu_search1
                         else if activeEngine = tavily then tavily else google_serper);
             results = providerSearch env provider keywords
         in ([ProviderCall provider keywords],
             Inr (if length results > 0
                  then join [0x0A] (mapIndexed formatResult 0 results)
                  else []))))"

definition fetchExternalContext ::
  "Material list \<Rightarrow> QuestionType list \<Rightarrow> SearchEngine \<Rightarrow> Enrichment
     \<Rightarrow> enrichEffect list \<times> jsstring" where
  "fetchExternalContext materials allowedTypes activeEngine env =
     (if length materials = 0 then ([], [])
      else
        (let started = [EnrichLog (MsgEngine activeEngine) 12, EnrichLog MsgScanning 15, KeywordCall]
         in case keywordResp env of
              Inl e \<Rightarrow> (started @ [EnrichConsoleError, EnrichLog MsgSearchFailed 25], [])
            | Inr text \<Rightarrow>
                (let keywords = extractKeywords text
                 in if keywords = [] \<or> isNone keywords \<or> isChattyCompleteness keywords
                    then (started @ [EnrichLog MsgSkipSearch 20], [])
                    else
                      (let announced = started @ [EnrichLog (MsgKeywords keywords) 18,
                                                  EnrichLog MsgSearching 20]
                       in case performSearch activeEngine env keywords of
                            (calls, Inl e) \<Rightarrow>
                              (announced @ calls @ [EnrichConsoleError, EnrichLog MsgSearchFailed 25], [])
                          | (calls, Inr searchContext) \<Rightarrow>
                              if searchContext \<noteq> []
                              then (announced @ calls @ [EnrichLog MsgSearchDone 25],
                                    contextHeader @ searchContext @ contextFooter)
                              else (announced @ calls, [])))))"

definition isSearchCall :: "enrichEffect \<Rightarrow> bool" where
  "isSearchCall e = (case e of NativeSearchCall k \<Rightarrow> True | ProviderCall p k \<Rightarrow> True | _ \<Rightarrow> False)"

definition searchPerformed :: "enrichEffect list \<Rightarrow> bool" where
  "searchPerformed effects = list_ex isSearchCall effects"

definition enrichLogs :: "enrichEffect list \<Rightarrow> logEntry list" where
  "enrichLogs effects = concat (map (\<lambda>e. case e of EnrichLog m p \<Rightarrow> [(m, p)] | _ \<Rightarrow> []) effects)"
section \<open>The scheduler\<close>

text \<open>The performance settings read from the local storage, and the active engine.\<close>

record Settings =
  userBatchSize :: int
  userRequestDelay :: int
  shardingMode :: ShardingMode
  activeEngine :: SearchEngine

text \<open>
  The rest of the world of a run: \<open>respond i k\<close> is the outcome of the \<open>k\<close>-th backend
  call of shard \<open>i\<close>; \<open>clock i index\<close> is the time at which record \<open>index\<close> of shard \<open>i\<close>
  is mapped; \<open>retryLogsWhileLaunching j\<close> is the number of retry lines of shard 0 that
  fire during the sleep before shard \<open>j\<close> is launched (PARALLEL mode); \<open>settleRank i\<close>
  orders the shards by the time at which their promises settle; \<open>random k\<close> is the
  \<open>k\<close>-th value of \<open>Math.random()\<close>.
\<close>

record World =
  enrichment :: Enrichment
  respond :: "nat \<Rightarrow> nat \<Rightarrow> error + responseBody"
  clock :: "nat \<Rightarrow> nat \<Rightarrow> nat"
  retryLogsWhileLaunching :: "nat \<Rightarrow> nat"
  settleRank :: "nat \<Rightarrow> nat"
  random :: "nat \<Rightarrow> rat"

text \<open>The lines that a shard gives to its \<open>onBatchLog\<close>, in order.\<close>

definition retryLines :: "retryEffect list \<Rightarrow> logMessage list" where
  "retryLines effects =
     concat (map (\<lambda>e. case e of OnLog actionName attempt \<Rightarrow> [MsgRetry actionName attempt] | _ \<Rightarrow> []) effects)"

definition runShard :: "World \<Rightarrow> nat \<Rightarrow> bool \<Rightarrow> retryEffect list \<times> (error + Question list)" where
  "runShard world i onBatchLog = generateBatchQuestions (respond world i) (clock world i) i onBatchLog"

text \<open>
  SERIAL mode: the loop over the shards from index \<open>i\<close> on; \<open>n\<close> is the number of
  shards. The retry lines of a shard are logged with the current progress. A rejection
  of a shard leaves the loop with the lines logged so far.
\<close>

fun serialLoop ::
  "World \<Rightarrow> int \<Rightarrow> int \<Rightarrow> nat \<Rightarrow> nat \<Rightarrow> int list \<Rightarrow> int \<Rightarrow> Question list
     \<Rightarrow> logEntry list \<times> (error + Question list)" where
  "serialLoop world requestDelay questionCount n i [] currentProgress questions = ([], Inr questions)"
| "serialLoop world requestDelay questionCount n i (b # bs) currentProgress questions =
     (let waiting = (if i > 0 \<and> requestDelay > 0 then [(MsgSerialWait requestDelay, currentProgress)] else []);
          starting = [(MsgShardStart (i + 1) n, currentProgress)]
      in case runShard world i True of
           (effects, Inl e) \<Rightarrow>
             (waiting @ starting @ map (\<lambda>m. (m, currentProgress)) (retryLines effects), Inl e)
         | (effects, Inr batchQuestions) \<Rightarrow>
             (let questions' = questions @ batchQuestions;
                  currentProgress' = 40 + round (rat_of_nat (i + 1) / rat_of_nat n * 50)
              in case serialLoop world requestDelay questionCount n (i + 1) bs currentProgress' questions' of
                   (logs, result) \<Rightarrow>
                     (waiting @ starting @ map (\<lambda>m. (m, currentProgress)) (retryLines effects)
                        @ [(MsgProgress (length questions') questionCount, currentProgress')] @ logs,
                      result)))"

text \<open>
  PARALLEL mode, the launching loop: before shard \<open>i > 0\<close> is launched the loop sleeps
  (when the delay is positive), and the retry lines of shard 0 that fire meanwhile are
  logged with \<open>currentProgress\<close>, which is 40 during the whole mode. The result is
  the lines logged and the retry lines of shard 0 that are still to come.
\<close>

fun launchLoop ::
  "World \<Rightarrow> int \<Rightarrow> nat \<Rightarrow> nat \<Rightarrow> int list \<Rightarrow> int \<Rightarrow> logMessage list
     \<Rightarrow> logEntry list \<times> logMessage list" where
  "launchLoop world requestDelay n i [] currentProgress pending = ([], pending)"
| "launchLoop world requestDelay n i (b # bs) currentProgress pending =
     (let fired = (if i > 0 \<and> requestDelay > 0 then take (retryLogsWhileLaunching world i) pending else []);
          pending' = (if i > 0 \<and> requestDelay > 0 then drop (retryLogsWhileLaunching world i) pending
                      else pending)
      in case launchLoop world requestDelay n (i + 1) bs currentProgress pending' of
           (logs, rest) \<Rightarrow>
             (map (\<lambda>m. (m, currentProgress)) fired @ [(MsgLaunch (i + 1) n, currentProgress)] @ logs, rest))"

text \<open>
  \<open>Promise.all\<close>: when some promise rejects, the result is the rejection that settles
  first; otherwise the values in the order of the promises. \<open>results.flat()\<close> joins them.
\<close>

fun rejections :: "nat \<Rightarrow> (error + 'a) list \<Rightarrow> (nat \<times> error) list" where
  "rejections i [] = []"
| "rejections i (Inl e # rs) = (i, e) # rejections (Suc i) rs"
| "rejections i (Inr v # rs) = rejections (Suc i) rs"

fun earliest :: "(nat \<Rightarrow> nat) \<Rightarrow> (nat \<times> error) list \<Rightarrow> (nat \<times> error) option" where
  "earliest rank [] = None"
| "earliest rank ((i, e) # rest) =
     (case earliest rank rest of
        None \<Rightarrow> Some (i, e)
      | Some (j, e') \<Rightarrow> if rank i \<le> rank j then Some (i, e) else Some (j, e'))"

fun fulfilled :: "(error + 'a) list \<Rightarrow> 'a list" where
  "fulfilled [] = []"
| "fulfilled (Inl e # rs) = fulfilled rs"
| "fulfilled (Inr v # rs) = v # fulfilled rs"

definition promiseAll :: "(nat \<Rightarrow> nat) \<Rightarrow> (error + 'a) list \<Rightarrow> error + 'a list" where
  "promiseAll rank results =
     (case earliest rank (rejections 0 results) of
        Some (i, e) \<Rightarrow> Inl e
      | None \<Rightarrow> Inr (fulfilled results))"

definition parallelRun ::
  "World \<Rightarrow> int \<Rightarrow> int list \<Rightarrow> logEntry list \<times> (error + Question list)" where
  "parallelRun world requestDelay batchCounts =
     (let n = length batchCounts;
          currentProgress = 40;
          shards = map (\<lambda>i. runShard world i (i = 0)) [0..<n];
          pending = (case shards of [] \<Rightarrow> [] | (effects, r) # others \<Rightarrow> retryLines effects)
      in case launchLoop world requestDelay n 0 batchCounts currentProgress pending of
           (logs, rest) \<Rightarrow>
             ([(MsgParallelStart requestDelay n, currentProgress)] @ logs @ [(MsgAllLaunched, 80)]
                @ map (\<lambda>m. (m, currentProgress)) rest,
              case promiseAll (settleRank world) (map snd shards) of
                Inl e \<Rightarrow> Inl e
              | Inr results \<Rightarrow> Inr (concat results)))"

text \<open>
  \<open>uniqueQuestions.sort(() => Math.random() - 0.5)\<close>. The comparison function ignores
  its arguments, and the sort of the host language only moves the elements of the array
  according to the answers it gets; it is modelled as an insertion sort that puts each
  element before the first element for which the comparison function answers a negative
  number. \<open>k\<close> counts the calls of \<open>Math.random\<close>.
\<close>

fun insertRandom :: "(nat \<Rightarrow> rat) \<Rightarrow> nat \<Rightarrow> 'a \<Rightarrow> 'a list \<Rightarrow> 'a list \<times> nat" where
  "insertRandom rnd k x [] = ([x], k)"
| "insertRandom rnd k x (y # ys) =
     (if rnd k - 1 / 2 < 0 then (x # y # ys, Suc k)
      else (case insertRandom rnd (Suc k) x ys of (zs, k') \<Rightarrow> (y # zs, k')))"

fun sortRandomLoop :: "(nat \<Rightarrow> rat) \<Rightarrow> nat \<Rightarrow> 'a list \<Rightarrow> 'a list \<Rightarrow> 'a list" where
  "sortRandomLoop rnd k done [] = done"
| "sortRandomLoop rnd k done (x # xs) =
     (case insertRandom rnd k x done of (done', k') \<Rightarrow> sortRandomLoop rnd k' done' xs)"

definition sortRandom :: "(nat \<Rightarrow> rat) \<Rightarrow> 'a list \<Rightarrow> 'a list" where
  "sortRandom rnd xs = sortRandomLoop rnd 0 [] xs"

text \<open>What follows the shards: cleaning, the duplicate filter, the last lines, the shuffle.\<close>

definition finish :: "World \<Rightarrow> bool \<Rightarrow> Question list \<Rightarrow> logEntry list \<times> Question list" where
  "finish world shuffle questions =
     (let uniqueQuestions = deduplicate questions
      in ([(MsgCleaning, 95)]
            @ (if length uniqueQuestions < length questions
               then [(MsgFiltered (length questions - length uniqueQuestions) (length uniqueQuestions), 98)]
               else [])
            @ [(MsgSuccess, 100)],
          if shuffle then sortRandom (random world) uniqueQuestions else uniqueQuestions))"

text \<open>The shards in the mode of the settings, with the lines they log.\<close>

definition runShards ::
  "Settings \<Rightarrow> World \<Rightarrow> int \<Rightarrow> int list \<Rightarrow> logEntry list \<times> (error + Question list)" where
  "runShards settings world questionCount batchCounts =
     (if shardingMode settings = SERIAL
      then serialLoop world (userRequestDelay settings) questionCount (length batchCounts) 0 batchCounts 40 []
      else parallelRun world (userRequestDelay settings) batchCounts)"

text \<open>
  \<open>generateExamQuestions\<close>: the lines given to \<open>onLog\<close> in order, and the list the promise
  resolves with or the error it rejects with. \<open>None\<close> is the run whose planning loop
  never ends. The types and the difficulty only reach the prompts.
\<close>

definition generateExamQuestions ::
  "Settings \<Rightarrow> World \<Rightarrow> Material list \<Rightarrow> int \<Rightarrow> QuestionType list \<Rightarrow> jsstring \<Rightarrow> bool
     \<Rightarrow> (logEntry list \<times> (error + Question list)) option" where
  "generateExamQuestions settings world materials questionCount types difficulty shuffle =
     (case shardPlan questionCount (userBatchSize settings) of
        None \<Rightarrow> None
      | Some batchCounts \<Rightarrow>
          (let enriched = fetchExternalContext materials types (activeEngine settings) (enrichment world);
               before = [(MsgStart, 5)] @ enrichLogs (fst enriched) @ [(MsgSharding, 30),
                  (MsgConfig (userBatchSize settings) (length batchCounts) (userRequestDelay settings)
                     (shardingMode settings), 35)]
           in case runShards settings world questionCount batchCounts of
                (logs, Inl e) \<Rightarrow> Some (before @ logs, Inl e)
              | (logs, Inr questions) \<Rightarrow>
                  (case finish world shuffle questions of
                     (lastLogs, result) \<Rightarrow> Some (before @ logs @ lastLogs, Inr result))))"

definition progressValues :: "logEntry list \<Rightarrow> int list" where
  "progressValues logs = map snd logs"

text \<open>
  An example material, and collaborators for the examples: the keyword extraction call
  answers the given text, the grounded search answers a text and no chunks, the providers
  find nothing.
\<close>

definition exampleMaterial :: Material where
  "exampleMaterial = \<lparr>material_id = js ''m1'', material_name = js ''notes.pdf'',
     mimeType = js ''application/pdf'', material_data = js ''AAAA'', material_size = 3\<rparr>"

definition enrichmentAnswering :: "jsstring \<Rightarrow> Enrichment" where
  "enrichmentAnswering text = \<lparr>keywordResp = Inr (Some text),
     nativeSearch = (\<lambda>keywords. Inr (Some (js ''found''), None)),
     providerSearch = (\<lambda>provider keywords. [])\<rparr>"

text \<open>
  Fixtures for the examples of runs: a raw short-answer record with the given text, the
  default settings in a given mode, and a world whose backend is the given function, whose
  keyword extraction answers \<open>NONE\<close>, in which no retry line fires while shards are being
  launched, whose shards settle in the order of their indices and whose random numbers are
  all 0.
\<close>

definition exampleRaw :: "jsstring \<Rightarrow> RawQuestion" where
  "exampleRaw text = \<lparr>raw_type = SHORT_ANSWER, raw_questionText = text, raw_options = None,
     raw_correctAnswer = JString (js ''answer''), raw_explanation = js ''because''\<rparr>"

definition exampleSettings :: "ShardingMode \<Rightarrow> Settings" where
  "exampleSettings mode = \<lparr>userBatchSize = 10, userRequestDelay = 1000, shardingMode = mode,
     activeEngine = google_native\<rparr>"

definition exampleWorld :: "(nat \<Rightarrow> nat \<Rightarrow> error + responseBody) \<Rightarrow> World" where
  "exampleWorld backend = \<lparr>enrichment = enrichmentAnswering (js ''NONE''), respond = backend,
     clock = (\<lambda>i index. 1000), retryLogsWhileLaunching = (\<lambda>j. 0), settleRank = (\<lambda>i. i),
     random = (\<lambda>k. 0)\<rparr>"

text \<open>A backend whose first call for a shard is rejected and whose second call answers one record.\<close>

definition failsOnce :: "nat \<Rightarrow> nat \<Rightarrow> error + responseBody" where
  "failsOnce i k = (if k = 0 then Inl (BackendError 503)
     else Inr (Records [exampleRaw (js ''1. What is X?'')]))"

text \<open>A backend that answers two records to every call.\<close>

definition answersTwo :: "nat \<Rightarrow> nat \<Rightarrow> error + responseBody" where
  "answersTwo i k = Inr (Records [exampleRaw (js ''1. What is X?''), exampleRaw (js ''2. What is Y?'')])"


text \<open>
  The progress values of the lines are non-decreasing and lie between two bounds.
\<close>

definition progressWithin :: "int \<Rightarrow> int \<Rightarrow> logEntry list \<Rightarrow> bool" where
  "progressWithin lo hi logs
     = (sorted (progressValues logs) \<and> list_all (\<lambda>p. lo \<le> p \<and> p \<le> hi) (progressValues logs))"

section \<open>Properties of the text cleaner\<close>

lemma cleanQuestionPrefix_stages:
  "cleanQuestionPrefix t = trim (replaceAnchored bareLabelRe (replaceAnchored circledRe
      (replaceAnchored numberRe (replaceAnchored labelledNumberRe (trim t)))))"
  by (simp add: cleanQuestionPrefix_def)

lemmas clean_eval = cleanQuestionPrefix_stages js_def trim_def trimStart_def trimEnd_def
  isSpace_def replaceAnchored_def labelledNumberRe_def numberRe_def circledRe_def
  bareLabelRe_def canonicalize_def startsWith_def isDigit_def openerClass_def
  closerClass_def numberSepClass_def colonClass_def labelSepClass_def

lemma clean_fullwidthExample: "cleanQuestionPrefix fullwidthExample = fullwidthExample"
  by (simp add: clean_eval fullwidthExample_def)

subsection \<open>First matches\<close>

text \<open>How the first match of a sequence, a repetition, an option and an alternative is found.\<close>

lemma leads_replace: "leads r s t \<Longrightarrow> replaceAnchored r s = t"
  by (auto simp: leads_def replaceAnchored_def)

lemma fails_replace: "rmatch r s = [] \<Longrightarrow> replaceAnchored r s = s"
  by (simp add: replaceAnchored_def)

lemma leads_Seq: "leads a s t \<Longrightarrow> leads b t u \<Longrightarrow> leads (Seq a b) s u"
  by (auto simp: leads_def)

lemma starRests_run:
  "list_all P ws \<Longrightarrow> rest = [] \<or> \<not> P (hd rest) \<Longrightarrow> \<exists>ts. starRests P (ws @ rest) = rest # ts"
proof (induction ws)
  case Nil
  then show ?case by (cases rest) auto
next
  case (Cons w ws)
  then show ?case by auto
qed

lemma leads_Star: "list_all P ws \<Longrightarrow> rest = [] \<or> \<not> P (hd rest) \<Longrightarrow> leads (Star P) (ws @ rest) rest"
  using starRests_run[of P ws rest] by (simp add: leads_def)

lemma leads_Plus:
  "ds \<noteq> [] \<Longrightarrow> list_all P ds \<Longrightarrow> rest = [] \<or> \<not> P (hd rest) \<Longrightarrow> leads (Plus P) (ds @ rest) rest"
proof -
  assume a: "ds \<noteq> []" "list_all P ds" "rest = [] \<or> \<not> P (hd rest)"
  then obtain d ds' where d: "ds = d # ds'" by (cases ds) auto
  with a have "P d" "list_all P ds'" by simp_all
  with starRests_run[of P ds' rest] a(3) d show ?thesis by (simp add: leads_def)
qed

lemma leads_Class: "P c \<Longrightarrow> leads (Class P) (c # rest) rest"
  by (simp add: leads_def)

lemma leads_Opt_take: "P c \<Longrightarrow> leads (Opt P) (c # rest) rest"
  by (simp add: leads_def)

lemma leads_Opt_skip: "s = [] \<or> \<not> P (hd s) \<Longrightarrow> leads (Opt P) s s"
  by (cases s) (auto simp: leads_def)

lemma leads_LitI:
  "map canonicalize l = map canonicalize w \<Longrightarrow> leads (LitI w) (l @ rest) rest"
proof -
  assume a: "map canonicalize l = map canonicalize w"
  then have "length l = length w" by (metis length_map)
  with a show ?thesis by (simp add: leads_def)
qed

lemma seq_alt: "rmatch (Seq (Alt a b) c) s = rmatch (Seq a c) s @ rmatch (Seq b c) s"
  by simp

lemma leads_alt_take:
  assumes "leads (Seq a c) s t" shows "leads (Seq (Alt a b) c) s t"
proof -
  from assms obtain ts where "rmatch (Seq a c) s = t # ts" unfolding leads_def ..
  then have "rmatch (Seq (Alt a b) c) s = t # (ts @ rmatch (Seq b c) s)"
    by (simp only: seq_alt append_Cons)
  then show ?thesis unfolding leads_def ..
qed

lemma leads_alt_skip:
  assumes "rmatch (Seq a c) s = []" "leads (Seq b c) s t" shows "leads (Seq (Alt a b) c) s t"
proof -
  from assms(2) obtain ts where "rmatch (Seq b c) s = t # ts" unfolding leads_def ..
  with assms(1) have "rmatch (Seq (Alt a b) c) s = t # ts" by (simp only: seq_alt append_Nil)
  then show ?thesis unfolding leads_def ..
qed

lemma fails_alt: "rmatch (Seq a c) s = [] \<Longrightarrow> rmatch (Seq b c) s = [] \<Longrightarrow> rmatch (Seq (Alt a b) c) s = []"
  by (simp only: seq_alt append_Nil)

lemma fails_LitI_first:
  "canonicalize z \<noteq> canonicalize a \<Longrightarrow> rmatch (Seq (LitI (a # w)) c) (z # rest) = []"
  by simp

lemma fails_LitI_cont:
  "(\<And>t. rmatch (LitI w) s = [t] \<Longrightarrow> rmatch c t = []) \<Longrightarrow> rmatch (Seq (LitI w) c) s = []"
  by (auto split: if_splits)

subsection \<open>Trimming\<close>

text \<open>A text without white space at either end is its own trimmed form, and trimming gives such a text.\<close>

lemma trimStart_id: "s = [] \<or> \<not> isSpace (hd s) \<Longrightarrow> trimStart s = s"
  by (cases s) (auto simp: trimStart_def)

lemma trimEnd_id: "s = [] \<or> \<not> isSpace (last s) \<Longrightarrow> trimEnd s = s"
proof (cases s rule: rev_cases)
  case Nil
  then show ?thesis by (simp add: trimEnd_def)
next
  case (snoc ys y)
  assume "s = [] \<or> \<not> isSpace (last s)"
  with snoc show ?thesis by (simp add: trimEnd_def)
qed

lemma trim_id: "s = [] \<or> (\<not> isSpace (hd s) \<and> \<not> isSpace (last s)) \<Longrightarrow> trim s = s"
  by (auto simp: trim_def trimStart_id trimEnd_id)

lemma trimStart_ends: "trimStart s = [] \<or> \<not> isSpace (hd (trimStart s))"
  unfolding trimStart_def by (metis hd_dropWhile)

lemma trimEnd_ends: "trimEnd s = [] \<or> \<not> isSpace (last (trimEnd s))"
proof -
  have "dropWhile isSpace (rev s) = [] \<or> \<not> isSpace (hd (dropWhile isSpace (rev s)))"
    by (metis hd_dropWhile)
  then show ?thesis
    by (auto simp: trimEnd_def last_rev)
qed

lemma trimEnd_hd: "y \<noteq> [] \<Longrightarrow> \<not> isSpace (hd y) \<Longrightarrow> trimEnd y \<noteq> [] \<and> hd (trimEnd y) = hd y"
proof -
  assume a: "y \<noteq> []" "\<not> isSpace (hd y)"
  then obtain c cs where y: "y = c # cs" by (cases y) auto
  have "trimEnd y @ rev (takeWhile isSpace (rev y))
          = rev (takeWhile isSpace (rev y) @ dropWhile isSpace (rev y))"
    unfolding trimEnd_def rev_append ..
  then have e: "trimEnd y @ rev (takeWhile isSpace (rev y)) = y" by simp
  have "trimEnd y \<noteq> []"
  proof
    assume "trimEnd y = []"
    with e have "rev (takeWhile isSpace (rev y)) = y" by simp
    then have "set y = set (takeWhile isSpace (rev y))" by (metis set_rev)
    moreover from y have "c \<in> set y" by simp
    ultimately have "c \<in> set (takeWhile isSpace (rev y))" by blast
    then have "isSpace c" by (auto dest: set_takeWhileD)
    with a y show False by simp
  qed
  moreover from this e have "hd (trimEnd y) = hd y" by (metis hd_append2)
  ultimately show ?thesis by simp
qed

lemma trim_ends: "trim s = [] \<or> (\<not> isSpace (hd (trim s)) \<and> \<not> isSpace (last (trim s)))"
proof (cases "trimStart s = []")
  case True
  then show ?thesis by (simp add: trim_def trimEnd_def)
next
  case False
  with trimStart_ends[of s] have h: "\<not> isSpace (hd (trimStart s))" by simp
  from trimEnd_hd[OF False h] trimEnd_ends[of "trimStart s"] h show ?thesis
    by (simp add: trim_def)
qed

lemma trim_trim: "trim (trim s) = trim s"
  using trim_ends[of s] by (rule trim_id)

lemma trim_Cons: "\<not> isSpace c \<Longrightarrow> \<exists>r. trim (c # rest) = c # r"
proof -
  assume a: "\<not> isSpace c"
  then have "trimStart (c # rest) = c # rest" by (simp add: trimStart_def)
  moreover from trimEnd_hd[of "c # rest"] a have "trimEnd (c # rest) \<noteq> [] \<and> hd (trimEnd (c # rest)) = c"
    by simp
  ultimately show ?thesis by (cases "trimEnd (c # rest)") (auto simp: trim_def)
qed

subsection \<open>What the first character decides\<close>

text \<open>Each expression of the cleaner fails on a text whose first character it cannot start with.\<close>

lemma labelled_first:
  "canonicalize c \<notin> set [0x51, 0x9898, 0x95EE, 0x43, 0x6848, 0x4E60] \<Longrightarrow> rmatch labelledNumberRe (c # rest) = []"
  by (simp add: labelledNumberRe_def js_def canonicalize_def)

lemma number_first: "\<not> openerClass c \<Longrightarrow> \<not> isDigit c \<Longrightarrow> rmatch numberRe (c # rest) = []"
  by (cases rest) (simp_all add: numberRe_def)

lemma circled_first: "c \<noteq> 0x2460 \<Longrightarrow> rmatch circledRe (c # rest) = []"
  by (simp add: circledRe_def startsWith_def)

lemma bareLabel_first:
  "canonicalize c \<notin> set [0x9898, 0x95EE, 0x51] \<Longrightarrow> rmatch bareLabelRe (c # rest) = []"
  by (simp add: bareLabelRe_def js_def canonicalize_def)

subsection \<open>Labels under the case-insensitive flag\<close>

lemma canon_num:
  "canonicalize (numeral n) =
     (if 0x61 \<le> (numeral n :: nat) \<and> (numeral n :: nat) \<le> 0x7A then numeral n - 0x20 else numeral n)"
  by (simp add: canonicalize_def)

lemma canon_space: "isSpace c \<Longrightarrow> canonicalize c = c"
  by (auto simp: isSpace_def canonicalize_def)

lemma canon_digit: "isDigit c \<Longrightarrow> canonicalize c = c"
  by (auto simp: isDigit_def canonicalize_def)

lemma canon_letter: "canonicalize c = v \<Longrightarrow> \<not> isSpace v \<Longrightarrow> \<not> isDigit v \<Longrightarrow> \<not> isSpace c \<and> \<not> isDigit c"
  using canon_space canon_digit by metis

lemma seq_LitI:
  "rmatch (Seq (LitI w) c) s =
     (if length w \<le> length s \<and> map canonicalize (take (length w) s) = map canonicalize w
      then rmatch c (drop (length w) s) else [])"
  by auto

lemma numbered_cases:
  assumes "isLabel numberedLabels l"
  obtains a where "l = [a]" "canonicalize a = 0x51"
  | a b c d e f g h where "l = [a, b, c, d, e, f, g, h]" "canonicalize a = 0x51"
      "canonicalize b = 0x55" "canonicalize c = 0x45" "canonicalize d = 0x53"
      "canonicalize e = 0x54" "canonicalize f = 0x49" "canonicalize g = 0x4F"
      "canonicalize h = 0x4E"
  | a b where "l = [a, b]" "canonicalize a = 0x9898" "canonicalize b = 0x76EE"
  | a b where "l = [a, b]" "canonicalize a = 0x95EE" "canonicalize b = 0x9898"
  | a b c d where "l = [a, b, c, d]" "canonicalize a = 0x43" "canonicalize b = 0x41"
      "canonicalize c = 0x53" "canonicalize d = 0x45"
  | a b where "l = [a, b]" "canonicalize a = 0x6848" "canonicalize b = 0x4F8B"
  | a b where "l = [a, b]" "canonicalize a = 0x4E60" "canonicalize b = 0x9898"
  using assms unfolding isLabel_def numberedLabels_def js_def
  by (simp add: canon_num map_eq_Cons_conv) (elim disjE exE conjE; simp)

lemma bare_cases:
  assumes "isLabel bareLabels l"
  obtains a b where "l = [a, b]" "canonicalize a = 0x9898" "canonicalize b = 0x76EE"
  | a b where "l = [a, b]" "canonicalize a = 0x95EE" "canonicalize b = 0x9898"
  | a b c d e f g h where "l = [a, b, c, d, e, f, g, h]" "canonicalize a = 0x51"
      "canonicalize b = 0x55" "canonicalize c = 0x45" "canonicalize d = 0x53"
      "canonicalize e = 0x54" "canonicalize f = 0x49" "canonicalize g = 0x4F"
      "canonicalize h = 0x4E"
  using assms unfolding isLabel_def bareLabels_def js_def
  by (simp add: canon_num map_eq_Cons_conv) (elim disjE exE conjE; simp)

lemma labelledNumberRe_alt:
  "labelledNumberRe =
     Seq (Alt (LitI [0x51]) (Alt (LitI [0x51, 0x75, 0x65, 0x73, 0x74, 0x69, 0x6F, 0x6E])
        (Alt (LitI [0x9898, 0x76EE]) (Alt (LitI [0x95EE, 0x9898]) (Alt (LitI [0x43, 0x61, 0x73, 0x65])
          (Alt (LitI [0x6848, 0x4F8B]) (LitI [0x4E60, 0x9898])))))))
       (Seq (Star isSpace) (Seq (Plus isDigit) (Seq (Star labelSepClass) (Star isSpace))))"
  by (simp add: labelledNumberRe_def js_def)

lemma bareLabelRe_alt:
  "bareLabelRe =
     Seq (Alt (LitI [0x9898, 0x76EE]) (Alt (LitI [0x95EE, 0x9898])
            (LitI [0x51, 0x75, 0x65, 0x73, 0x74, 0x69, 0x6F, 0x6E])))
       (Seq (Class colonClass) (Star isSpace))"
  by (simp add: bareLabelRe_def js_def)

lemma labelTail_first:
  "\<not> isSpace ch \<Longrightarrow> \<not> isDigit ch \<Longrightarrow> rmatch (Seq (Star isSpace) (Seq (Plus isDigit) r)) (ch # s) = []"
  by simp

lemma labelled_strips:
  assumes l: "isLabel numberedLabels l"
    and t: "rmatch (Seq (Star isSpace) (Seq (Plus isDigit) (Seq (Star labelSepClass) (Star isSpace)))) rest = x # ts"
  shows "\<exists>ts'. rmatch labelledNumberRe (l @ rest) = x # ts'"
  using l
proof (cases rule: numbered_cases)
  case (2 a b c d e f g h)
  from canon_letter[OF 2(3)] have "\<not> isSpace b \<and> \<not> isDigit b"
    by (simp add: isSpace_def isDigit_def)
  then have "rmatch (Seq (Star isSpace) (Seq (Plus isDigit) (Seq (Star labelSepClass) (Star isSpace))))
      (b # c # d # e # f # g # h # rest) = []"
    by (intro labelTail_first) simp_all
  with 2 t show ?thesis
    unfolding labelledNumberRe_alt seq_alt seq_LitI by (simp add: canon_num del: rmatch.simps)
qed (use t in \<open>simp_all add: labelledNumberRe_alt seq_alt seq_LitI canon_num del: rmatch.simps\<close>)

subsection \<open>The expressions on a prefixed text\<close>

lemma label_head_plain:
  "canonicalize a = v \<Longrightarrow> v \<in> {0x51, 0x9898, 0x95EE, 0x43, 0x6848, 0x4E60}
     \<Longrightarrow> \<not> isSpace a \<and> \<not> isDigit a \<and> \<not> openerClass a \<and> a \<noteq> 0x2460"
  by (auto simp: canonicalize_def isSpace_def isDigit_def openerClass_def split: if_splits)

lemma numbered_head:
  assumes "isLabel numberedLabels l"
  shows "l \<noteq> [] \<and> \<not> isSpace (hd l)"
  using assms by (cases rule: numbered_cases) (use label_head_plain in \<open>simp_all\<close>)

lemma bare_head:
  assumes "isLabel bareLabels l"
  shows "l \<noteq> [] \<and> \<not> isSpace (hd l) \<and> \<not> isDigit (hd l) \<and> \<not> openerClass (hd l) \<and> hd l \<noteq> 0x2460"
  using assms by (cases rule: bare_cases) (use label_head_plain in \<open>simp_all\<close>)

lemma digit_facts: "isDigit c \<Longrightarrow> \<not> isSpace c \<and> \<not> labelSepClass c \<and> \<not> openerClass c \<and> \<not> closerClass c \<and> \<not> numberSepClass c"
  by (auto simp: isDigit_def isSpace_def labelSepClass_def openerClass_def closerClass_def numberSepClass_def)

lemma space_facts: "isSpace c \<Longrightarrow> \<not> isDigit c \<and> \<not> closerClass c \<and> \<not> numberSepClass c \<and> labelSepClass c"
  by (auto simp: isDigit_def isSpace_def labelSepClass_def closerClass_def numberSepClass_def)

lemma sep_facts: "numberSepClass c \<Longrightarrow> \<not> isDigit c \<and> \<not> isSpace c \<and> (closerClass c \<longrightarrow> c = 0x29)"
  by (auto simp: isDigit_def isSpace_def closerClass_def numberSepClass_def)

lemma closer_facts: "closerClass c \<Longrightarrow> \<not> isDigit c \<and> \<not> isSpace c"
  by (auto simp: isDigit_def isSpace_def closerClass_def)

lemma colon_facts: "colonClass c \<Longrightarrow> \<not> isDigit c \<and> \<not> isSpace c"
  by (auto simp: isDigit_def isSpace_def colonClass_def)

lemma labelSep_facts: "labelSepClass c \<Longrightarrow> \<not> isDigit c"
  by (auto simp: isDigit_def isSpace_def labelSepClass_def)

lemma labelTail_leads:
  assumes ws: "list_all isSpace ws" and ds: "ds \<noteq> []" "list_all isDigit ds"
    and seps: "list_all labelSepClass seps"
    and x: "x \<noteq> []" "\<not> labelSepClass (hd x)" "seps = [] \<longrightarrow> \<not> isDigit (hd x)"
  shows "leads (Seq (Star isSpace) (Seq (Plus isDigit) (Seq (Star labelSepClass) (Star isSpace))))
           (ws @ ds @ seps @ x) x"
proof -
  from ds have hd: "isDigit (hd ds)" by (cases ds) simp_all
  have 1: "leads (Star isSpace) (ws @ ds @ seps @ x) (ds @ seps @ x)"
    by (rule leads_Star[OF ws]) (use ds hd digit_facts in simp)
  have "\<not> isDigit (hd (seps @ x))"
    using seps x labelSep_facts by (cases seps) simp_all
  then have 2: "leads (Plus isDigit) (ds @ seps @ x) (seps @ x)"
    by (intro leads_Plus ds) simp
  have 3: "leads (Star labelSepClass) (seps @ x) x"
    by (rule leads_Star[OF seps]) (use x in simp)
  from x have "\<not> isSpace (hd x)" by (auto simp: labelSepClass_def)
  then have "leads (Star isSpace) ([] @ x) x" by (intro leads_Star) simp_all
  then have 4: "leads (Star isSpace) x x" by simp
  show ?thesis by (rule leads_Seq[OF 1 leads_Seq[OF 2 leads_Seq[OF 3 4]]])
qed

lemma labelled_fails_bare:
  assumes l: "isLabel bareLabels l" and c: "\<not> isSpace ch" "\<not> isDigit ch"
  shows "rmatch labelledNumberRe (l @ ch # rest) = []"
  using l
proof (cases rule: bare_cases)
  case (3 a b c d e f g h)
  from canon_letter[OF 3(3)] have "\<not> isSpace b \<and> \<not> isDigit b"
    by (simp add: isSpace_def isDigit_def)
  then have "rmatch (Seq (Star isSpace) (Seq (Plus isDigit) (Seq (Star labelSepClass) (Star isSpace))))
      (b # c # d # e # f # g # h # ch # rest) = []"
    by (intro labelTail_first) simp_all
  moreover from c have "rmatch (Seq (Star isSpace) (Seq (Plus isDigit) (Seq (Star labelSepClass) (Star isSpace))))
      (ch # rest) = []"
    by (intro labelTail_first) simp_all
  ultimately show ?thesis using 3
    unfolding labelledNumberRe_alt seq_alt seq_LitI by (simp add: canon_num del: rmatch.simps)
next
  case (1 a b)
  from c have "rmatch (Seq (Star isSpace) (Seq (Plus isDigit) (Seq (Star labelSepClass) (Star isSpace))))
      (ch # rest) = []"
    by (intro labelTail_first) simp_all
  with 1 show ?thesis
    unfolding labelledNumberRe_alt seq_alt seq_LitI by (simp add: canon_num del: rmatch.simps)
next
  case (2 a b)
  from c have "rmatch (Seq (Star isSpace) (Seq (Plus isDigit) (Seq (Star labelSepClass) (Star isSpace))))
      (ch # rest) = []"
    by (intro labelTail_first) simp_all
  with 2 show ?thesis
    unfolding labelledNumberRe_alt seq_alt seq_LitI by (simp add: canon_num del: rmatch.simps)
qed

lemma bare_strips:
  assumes l: "isLabel bareLabels l"
    and t: "rmatch (Seq (Class colonClass) (Star isSpace)) rest = x # ts"
  shows "\<exists>ts'. rmatch bareLabelRe (l @ rest) = x # ts'"
  using l
  by (cases rule: bare_cases)
    (use t in \<open>simp_all add: bareLabelRe_alt seq_alt seq_LitI canon_num del: rmatch.simps\<close>)

lemma seq_Opt_take: "P c \<Longrightarrow> rmatch (Seq (Opt P) r) (c # s) = rmatch r s @ rmatch r (c # s)"
  by simp

lemma star_class_fail:
  assumes "list_all isSpace ws" "x \<noteq> []" "\<not> isSpace (hd x)" "\<not> P (hd x)" "\<And>c. isSpace c \<Longrightarrow> \<not> P c"
  shows "rmatch (Seq (Star isSpace) (Seq (Class P) r)) (ws @ x) = []"
proof -
  have "\<forall>t \<in> set (starRests isSpace (ws @ x)). t \<noteq> [] \<and> \<not> P (hd t)"
    using assms(1)
  proof (induction ws)
    case Nil
    with assms show ?case by (cases x) auto
  next
    case (Cons w ws)
    with assms(5) show ?case by auto
  qed
  then have "\<forall>t \<in> set (starRests isSpace (ws @ x)). rmatch (Seq (Class P) r) t = []"
    by (auto split: list.splits)
  then show ?thesis by simp
qed

lemma numberTail_leads:
  assumes ws1: "list_all isSpace ws1" and sep: "numberSepClass sep" and ws2: "list_all isSpace ws2"
    and x: "x \<noteq> []" "\<not> isSpace (hd x)"
  shows "leads (Seq (Star isSpace) (Seq (Class numberSepClass) (Star isSpace))) (ws1 @ sep # ws2 @ x) x"
proof -
  have 1: "leads (Star isSpace) (ws1 @ sep # ws2 @ x) (sep # ws2 @ x)"
    by (rule leads_Star[OF ws1]) (use sep sep_facts in simp)
  have 2: "leads (Class numberSepClass) (sep # ws2 @ x) (ws2 @ x)"
    using sep by (rule leads_Class[where P=numberSepClass and c=sep])
  have 3: "leads (Star isSpace) (ws2 @ x) x"
    by (rule leads_Star[OF ws2]) (use x in simp)
  show ?thesis by (rule leads_Seq[OF 1 leads_Seq[OF 2 3]])
qed

lemma closer_leads:
  assumes cl: "length cl \<le> 1" "list_all closerClass cl"
    and ws1: "list_all isSpace ws1" and sep: "numberSepClass sep" and ws2: "list_all isSpace ws2"
    and x: "x \<noteq> []" "\<not> isSpace (hd x)"
    and sp: "cl = [] \<and> ws1 = [] \<and> sep = 0x29 \<longrightarrow> \<not> numberSepClass (hd x)"
  shows "leads (Seq (Opt closerClass) (Seq (Star isSpace) (Seq (Class numberSepClass) (Star isSpace))))
           (cl @ ws1 @ sep # ws2 @ x) x"
proof -
  note t = numberTail_leads[OF ws1 sep ws2 x]
  consider c where "cl = [c]" "closerClass c"
    | "cl = []" "\<not> closerClass (hd (ws1 @ sep # ws2 @ x))"
    | "cl = []" "ws1 = []" "sep = 0x29"
  proof -
    show ?thesis
    proof (cases cl)
      case Nil
      show ?thesis
      proof (cases ws1)
        case Nil
        with \<open>cl = []\<close> sep sep_facts[of sep] that(2,3) show ?thesis by (cases "closerClass sep") auto
      next
        case (Cons w ws)
        with \<open>cl = []\<close> ws1 space_facts[of w] that(2) show ?thesis by simp
      qed
    next
      case (Cons c cs)
      with cl that(1) show ?thesis by simp
    qed
  qed
  then show ?thesis
  proof cases
    case 1
    have "leads (Opt closerClass) (c # ws1 @ sep # ws2 @ x) (ws1 @ sep # ws2 @ x)"
      using 1(2) by (rule leads_Opt_take[where P=closerClass and c=c])
    with t 1 show ?thesis by (simp add: leads_Seq del: rmatch.simps)
  next
    case 2
    then have "leads (Opt closerClass) (ws1 @ sep # ws2 @ x) (ws1 @ sep # ws2 @ x)"
      by (intro leads_Opt_skip) simp
    with t 2 show ?thesis by (simp add: leads_Seq del: rmatch.simps)
  next
    case 3
    with sp have n: "\<not> numberSepClass (hd x)" by simp
    have f: "rmatch (Seq (Star isSpace) (Seq (Class numberSepClass) (Star isSpace))) (ws2 @ x) = []"
      using ws2 x n by (rule star_class_fail[where P=numberSepClass]) (use space_facts in simp)
    from t 3 obtain ts where
      "rmatch (Seq (Star isSpace) (Seq (Class numberSepClass) (Star isSpace))) (0x29 # ws2 @ x) = x # ts"
      by (auto simp: leads_def simp del: rmatch.simps)
    moreover have "closerClass 0x29" by (simp add: closerClass_def)
    ultimately have "rmatch (Seq (Opt closerClass) (Seq (Star isSpace) (Seq (Class numberSepClass) (Star isSpace))))
        (0x29 # ws2 @ x) = x # ts"
      using f by (simp only: seq_Opt_take append_Nil)
    with 3 show ?thesis by (simp add: leads_def del: rmatch.simps)
  qed
qed

lemma number_strips:
  assumes op: "length op \<le> 1" "list_all openerClass op"
    and ds: "ds \<noteq> []" "list_all isDigit ds"
    and cl: "length cl \<le> 1" "list_all closerClass cl"
    and ws1: "list_all isSpace ws1" and sep: "numberSepClass sep" and ws2: "list_all isSpace ws2"
    and x: "x \<noteq> []" "\<not> isSpace (hd x)"
    and sp: "cl = [] \<and> ws1 = [] \<and> sep = 0x29 \<longrightarrow> \<not> numberSepClass (hd x)"
  shows "leads numberRe (op @ ds @ cl @ ws1 @ sep # ws2 @ x) x"
proof -
  note c = closer_leads[OF cl ws1 sep ws2 x sp]
  have "\<not> isDigit (hd (cl @ ws1 @ sep # ws2 @ x))"
  proof (cases cl)
    case Nil
    show ?thesis
    proof (cases ws1)
      case Nil
      with \<open>cl = []\<close> sep sep_facts[of sep] show ?thesis by simp
    next
      case (Cons w ws)
      with \<open>cl = []\<close> ws1 space_facts[of w] show ?thesis by simp
    qed
  next
    case (Cons c cs)
    with cl closer_facts[of c] show ?thesis by simp
  qed
  then have d: "leads (Plus isDigit) (ds @ cl @ ws1 @ sep # ws2 @ x) (cl @ ws1 @ sep # ws2 @ x)"
    by (intro leads_Plus ds) simp
  from ds have hd: "isDigit (hd ds)" by (cases ds) simp_all
  have o: "leads (Opt openerClass) (op @ ds @ cl @ ws1 @ sep # ws2 @ x) (ds @ cl @ ws1 @ sep # ws2 @ x)"
  proof (cases op)
    case Nil
    have "leads (Opt openerClass) (ds @ cl @ ws1 @ sep # ws2 @ x) (ds @ cl @ ws1 @ sep # ws2 @ x)"
      by (intro leads_Opt_skip) (use ds hd digit_facts in simp)
    with Nil show ?thesis by simp
  next
    case (Cons c cs)
    with op have "op = [c]" "openerClass c" by simp_all
    then show ?thesis by (simp add: leads_Opt_take del: rmatch.simps)
  qed
  show ?thesis unfolding numberRe_def by (rule leads_Seq[OF o leads_Seq[OF d c]])
qed

subsection \<open>The cleaner on a prefixed text\<close>

lemma trimmed_trim: "isTrimmed x \<Longrightarrow> trim x = x"
  by (simp add: isTrimmed_def trim_id)

lemma trimmed_append: "s \<noteq> [] \<Longrightarrow> \<not> isSpace (hd s) \<Longrightarrow> isTrimmed x \<Longrightarrow> trim (s @ x) = s @ x"
  by (rule trim_id) (simp add: isTrimmed_def)

lemma clean_labelled:
  assumes l: "isLabel numberedLabels l" and ws: "list_all isSpace ws"
    and ds: "ds \<noteq> []" "list_all isDigit ds" and seps: "list_all labelSepClass seps"
    and x: "isTrimmed x" "\<not> labelSepClass (hd x)" "seps = [] \<longrightarrow> \<not> isDigit (hd x)"
    and later: "rmatch numberRe x = []" "rmatch circledRe x = []" "rmatch bareLabelRe x = []"
  shows "cleanQuestionPrefix (l @ ws @ ds @ seps @ x) = x"
proof -
  from x have ne: "x \<noteq> []" by (simp add: isTrimmed_def)
  from numbered_head[OF l] have "(l @ ws @ ds @ seps) \<noteq> []" "\<not> isSpace (hd (l @ ws @ ds @ seps))"
    by simp_all
  from trimmed_append[OF this x(1)] have 0: "trim (l @ ws @ ds @ seps @ x) = l @ ws @ ds @ seps @ x"
    by simp
  from labelTail_leads[OF ws ds seps ne x(2,3)] obtain ts where
    "rmatch (Seq (Star isSpace) (Seq (Plus isDigit) (Seq (Star labelSepClass) (Star isSpace))))
       (ws @ ds @ seps @ x) = x # ts"
    unfolding leads_def ..
  from labelled_strips[OF l this] have "leads labelledNumberRe (l @ ws @ ds @ seps @ x) x"
    unfolding leads_def .
  then have 1: "replaceAnchored labelledNumberRe (l @ ws @ ds @ seps @ x) = x"
    by (rule leads_replace)
  show ?thesis
    by (simp only: cleanQuestionPrefix_stages 0 1 fails_replace[OF later(1)]
        fails_replace[OF later(2)] fails_replace[OF later(3)] trimmed_trim[OF x(1)])
qed

lemma opener_digit_first:
  "openerClass c \<or> isDigit c \<Longrightarrow> \<not> isSpace c \<and> rmatch labelledNumberRe (c # rest) = []"
proof -
  assume a: "openerClass c \<or> isDigit c"
  then have "canonicalize c \<notin> set [0x51, 0x9898, 0x95EE, 0x43, 0x6848, 0x4E60]"
    by (auto simp: openerClass_def isDigit_def canonicalize_def)
  then have "rmatch labelledNumberRe (c # rest) = []" by (rule labelled_first)
  moreover from a have "\<not> isSpace c" by (auto simp: openerClass_def isDigit_def isSpace_def)
  ultimately show ?thesis by simp
qed

lemma clean_numbered:
  assumes op: "length op \<le> 1" "list_all openerClass op"
    and ds: "ds \<noteq> []" "list_all isDigit ds"
    and cl: "length cl \<le> 1" "list_all closerClass cl"
    and ws1: "list_all isSpace ws1" and sep: "numberSepClass sep" and ws2: "list_all isSpace ws2"
    and x: "isTrimmed x"
    and sp: "cl = [] \<and> ws1 = [] \<and> sep = 0x29 \<longrightarrow> \<not> numberSepClass (hd x)"
    and later: "rmatch circledRe x = []" "rmatch bareLabelRe x = []"
  shows "cleanQuestionPrefix (op @ ds @ cl @ ws1 @ sep # ws2 @ x) = x"
proof -
  from x have ne: "x \<noteq> []" "\<not> isSpace (hd x)" by (simp_all add: isTrimmed_def)
  define pre where "pre = op @ ds @ cl @ ws1 @ sep # ws2"
  have s: "op @ ds @ cl @ ws1 @ sep # ws2 @ x = pre @ x" by (simp add: pre_def)
  obtain c r where c: "pre = c # r" "openerClass c \<or> isDigit c"
  proof (cases op)
    case Nil
    from ds obtain d ds' where "ds = d # ds'" "isDigit d" by (cases ds) auto
    with Nil that show ?thesis by (simp add: pre_def)
  next
    case (Cons o os)
    with op that show ?thesis by (simp add: pre_def)
  qed
  note f = opener_digit_first[OF c(2)]
  from c f have "pre \<noteq> []" "\<not> isSpace (hd pre)" by simp_all
  from trimmed_append[OF this x] have 0: "trim (pre @ x) = pre @ x" .
  from c f have 1: "replaceAnchored labelledNumberRe (pre @ x) = pre @ x"
    by (simp add: fails_replace del: rmatch.simps)
  from number_strips[OF op ds cl ws1 sep ws2 ne sp] have 2: "replaceAnchored numberRe (pre @ x) = x"
    unfolding s by (rule leads_replace)
  show ?thesis unfolding s
    by (simp only: cleanQuestionPrefix_stages 0 1 2 fails_replace[OF later(1)]
        fails_replace[OF later(2)] trimmed_trim[OF x])
qed

lemma clean_circled:
  assumes ws: "list_all isSpace ws" and x: "isTrimmed x" and later: "rmatch bareLabelRe x = []"
  shows "cleanQuestionPrefix (0x2460 # ws @ x) = x"
proof -
  from x have ne: "x \<noteq> []" "\<not> isSpace (hd x)" by (simp_all add: isTrimmed_def)
  have "[0x2460 :: nat] @ ws \<noteq> []" "\<not> isSpace (hd ([0x2460] @ ws))" by (simp_all add: isSpace_def)
  from trimmed_append[OF this x] have 0: "trim (0x2460 # ws @ x) = 0x2460 # ws @ x" by simp
  have 1: "replaceAnchored labelledNumberRe (0x2460 # ws @ x) = 0x2460 # ws @ x"
    by (rule fails_replace, rule labelled_first) (simp add: canonicalize_def)
  have 2: "replaceAnchored numberRe (0x2460 # ws @ x) = 0x2460 # ws @ x"
    by (rule fails_replace, rule number_first) (simp_all add: openerClass_def isDigit_def)
  have a: "leads (Lit [0x2460]) (0x2460 # ws @ x) (ws @ x)"
    by (simp add: leads_def startsWith_def)
  have b: "leads (Star isSpace) (ws @ x) x"
    by (rule leads_Star[OF ws]) (use ne in simp)
  have 3: "replaceAnchored circledRe (0x2460 # ws @ x) = x"
    unfolding circledRe_def by (rule leads_replace[OF leads_Seq[OF a b]])
  show ?thesis
    by (simp only: cleanQuestionPrefix_stages 0 1 2 3 fails_replace[OF later] trimmed_trim[OF x])
qed

lemma clean_bare:
  assumes l: "isLabel bareLabels l" and colon: "colonClass colon" and ws: "list_all isSpace ws"
    and x: "isTrimmed x"
  shows "cleanQuestionPrefix (l @ colon # ws @ x) = x"
proof -
  from x have ne: "x \<noteq> []" "\<not> isSpace (hd x)" by (simp_all add: isTrimmed_def)
  from bare_head[OF l] obtain c r where c: "l = c # r" "\<not> isSpace c" "\<not> isDigit c"
    "\<not> openerClass c" "c \<noteq> 0x2460"
    by (cases l) auto
  have "l @ colon # ws \<noteq> []" "\<not> isSpace (hd (l @ colon # ws))" using c by simp_all
  from trimmed_append[OF this x] have 0: "trim (l @ colon # ws @ x) = l @ colon # ws @ x" by simp
  from colon_facts[OF colon] have "rmatch labelledNumberRe (l @ colon # ws @ x) = []"
    by (intro labelled_fails_bare l) simp_all
  then have 1: "replaceAnchored labelledNumberRe (l @ colon # ws @ x) = l @ colon # ws @ x"
    by (rule fails_replace)
  have 2: "replaceAnchored numberRe (l @ colon # ws @ x) = l @ colon # ws @ x"
    unfolding c(1) append_Cons by (rule fails_replace, rule number_first) (use c in simp_all)
  have 3: "replaceAnchored circledRe (l @ colon # ws @ x) = l @ colon # ws @ x"
    unfolding c(1) append_Cons by (rule fails_replace, rule circled_first) (use c in simp_all)
  have a: "leads (Class colonClass) (colon # ws @ x) (ws @ x)"
    using colon by (rule leads_Class[where P=colonClass and c=colon])
  have b: "leads (Star isSpace) (ws @ x) x"
    by (rule leads_Star[OF ws]) (use ne in simp)
  from leads_Seq[OF a b] obtain ts where
    "rmatch (Seq (Class colonClass) (Star isSpace)) (colon # ws @ x) = x # ts"
    unfolding leads_def ..
  from bare_strips[OF l this] have "leads bareLabelRe (l @ colon # ws @ x) x"
    unfolding leads_def .
  then have 4: "replaceAnchored bareLabelRe (l @ colon # ws @ x) = x" by (rule leads_replace)
  show ?thesis
    by (simp only: cleanQuestionPrefix_stages 0 1 2 3 4 trimmed_trim[OF x])
qed

lemma clean_fullwidth: "cleanQuestionPrefix (0xFF08 # rest) = trim (0xFF08 # rest)"
proof -
  have "\<not> isSpace 0xFF08" by (simp add: isSpace_def)
  from trim_Cons[OF this] obtain r where r: "trim (0xFF08 # rest) = 0xFF08 # r" by blast
  have 1: "replaceAnchored labelledNumberRe (0xFF08 # r) = 0xFF08 # r"
    by (rule fails_replace, rule labelled_first) (simp add: canonicalize_def)
  have 2: "replaceAnchored numberRe (0xFF08 # r) = 0xFF08 # r"
    by (rule fails_replace, rule number_first) (simp_all add: openerClass_def isDigit_def)
  have 3: "replaceAnchored circledRe (0xFF08 # r) = 0xFF08 # r"
    by (rule fails_replace, rule circled_first) simp
  have 4: "replaceAnchored bareLabelRe (0xFF08 # r) = 0xFF08 # r"
    by (rule fails_replace, rule bareLabel_first) (simp add: canonicalize_def)
  have "trim (0xFF08 # r) = 0xFF08 # r" using trim_trim[of "0xFF08 # rest"] by (simp only: r)
  then show ?thesis
    by (simp only: cleanQuestionPrefix_stages r 1 2 3 4)
qed

lemmas prefix_eval = js_def isSpace_def isDigit_def openerClass_def closerClass_def
  numberSepClass_def colonClass_def labelSepClass_def isTrimmed_def isLabel_def
  numberedLabels_def bareLabels_def canonicalize_def numberRe_def circledRe_def
  bareLabelRe_def labelledNumberRe_def startsWith_def

text \<open>
  Claim C6, as amended. The cleaner strips from the start of a text, leaving the body \<open>x\<close>:

  \<^item> a labelled numeric prefix: one of the seven labels Q, Question, U+9898 U+76EE,
    U+95EE U+9898, Case, U+6848 U+4F8B, U+4E60 U+9898 in any case of its letters, white
    space, digits, separators (white space, \<open>.\<close>, \<open>:\<close>, U+FF1A, \<open>-\<close>, U+3001), when the body
    starts with no separator (nor, right after the digits, with a digit) and with nothing
    the later expressions strip;
  \<^item> a numeric prefix: at most one opener (\<open>(\<close>, U+3010, \<open>[\<close>), digits, at most one closer
    (\<open>)\<close>, \<open>]\<close>, U+3011), white space, one separator (U+3001, \<open>.\<close>, U+FF0E, \<open>:\<close>, U+FF1A,
    \<open>)\<close>, \<open>-\<close>), white space, when the body starts with nothing the later expressions
    strip; so \<open>1.\<close>, \<open>1)\<close> and \<open>(1)\<close> are stripped, the closing parenthesis of the last two
    being the separator (the body then must not start with a separator);
  \<^item> the circled digit U+2460 and the white space after it;
  \<^item> a bare label: U+9898 U+76EE, U+95EE U+9898 or Question in any case of its letters, a
    colon (ASCII or U+FF1A), white space.

  A text that starts with the fullwidth parenthesis U+FF08 is only trimmed: the openers
  are ASCII or U+3010. So \<open>1. What is X?\<close> becomes \<open>What is X?\<close>, \<open>Q3: test\<close> becomes
  \<open>test\<close>, \<open>(2)\<close> before U+793A U+4F8B is stripped, and U+FF08 2 U+FF09 U+793A U+4F8B is
  left as it is.
\<close>

theorem cleanQuestionPrefix_strips:
  "(\<forall>l ws ds seps x.
      isLabel numberedLabels l \<and> list_all isSpace ws \<and> ds \<noteq> [] \<and> list_all isDigit ds
      \<and> list_all labelSepClass seps \<and> isTrimmed x \<and> \<not> labelSepClass (hd x)
      \<and> (seps = [] \<longrightarrow> \<not> isDigit (hd x))
      \<and> rmatch numberRe x = [] \<and> rmatch circledRe x = [] \<and> rmatch bareLabelRe x = []
      \<longrightarrow> cleanQuestionPrefix (l @ ws @ ds @ seps @ x) = x)
   \<and> (\<forall>opener ds closer ws1 sep ws2 x.
      length opener \<le> 1 \<and> list_all openerClass opener \<and> ds \<noteq> [] \<and> list_all isDigit ds
      \<and> length closer \<le> 1 \<and> list_all closerClass closer \<and> list_all isSpace ws1
      \<and> numberSepClass sep \<and> list_all isSpace ws2 \<and> isTrimmed x
      \<and> (closer = [] \<and> ws1 = [] \<and> sep = 0x29 \<longrightarrow> \<not> numberSepClass (hd x))
      \<and> rmatch circledRe x = [] \<and> rmatch bareLabelRe x = []
      \<longrightarrow> cleanQuestionPrefix (opener @ ds @ closer @ ws1 @ sep # ws2 @ x) = x)
   \<and> (\<forall>ws x. list_all isSpace ws \<and> isTrimmed x \<and> rmatch bareLabelRe x = []
      \<longrightarrow> cleanQuestionPrefix (0x2460 # ws @ x) = x)
   \<and> (\<forall>l colon ws x.
      isLabel bareLabels l \<and> colonClass colon \<and> list_all isSpace ws \<and> isTrimmed x
      \<longrightarrow> cleanQuestionPrefix (l @ colon # ws @ x) = x)
   \<and> (\<forall>rest. cleanQuestionPrefix (0xFF08 # rest) = trim (0xFF08 # rest))
   \<and> cleanQuestionPrefix (js ''1. What is X?'') = js ''What is X?''
   \<and> cleanQuestionPrefix (js ''Q3: test'') = js ''test''
   \<and> cleanQuestionPrefix (js ''(2)'' @ [0x793A, 0x4F8B]) = [0x793A, 0x4F8B]
   \<and> cleanQuestionPrefix fullwidthExample = fullwidthExample"
proof (intro conjI allI impI)
  fix l ws ds seps x
  assume "isLabel numberedLabels l \<and> list_all isSpace ws \<and> ds \<noteq> [] \<and> list_all isDigit ds
      \<and> list_all labelSepClass seps \<and> isTrimmed x \<and> \<not> labelSepClass (hd x)
      \<and> (seps = [] \<longrightarrow> \<not> isDigit (hd x))
      \<and> rmatch numberRe x = [] \<and> rmatch circledRe x = [] \<and> rmatch bareLabelRe x = []"
  then show "cleanQuestionPrefix (l @ ws @ ds @ seps @ x) = x"
    by (intro clean_labelled) simp_all
next
  fix opener ds closer ws1 sep ws2 x
  assume "length opener \<le> 1 \<and> list_all openerClass opener \<and> ds \<noteq> [] \<and> list_all isDigit ds
      \<and> length closer \<le> 1 \<and> list_all closerClass closer \<and> list_all isSpace ws1
      \<and> numberSepClass sep \<and> list_all isSpace ws2 \<and> isTrimmed x
      \<and> (closer = [] \<and> ws1 = [] \<and> sep = 0x29 \<longrightarrow> \<not> numberSepClass (hd x))
      \<and> rmatch circledRe x = [] \<and> rmatch bareLabelRe x = []"
  then show "cleanQuestionPrefix (opener @ ds @ closer @ ws1 @ sep # ws2 @ x) = x"
    by (intro clean_numbered) simp_all
next
  fix ws x
  assume "list_all isSpace ws \<and> isTrimmed x \<and> rmatch bareLabelRe x = []"
  then show "cleanQuestionPrefix (0x2460 # ws @ x) = x"
    by (intro clean_circled) simp_all
next
  fix l colon ws x
  assume "isLabel bareLabels l \<and> colonClass colon \<and> list_all isSpace ws \<and> isTrimmed x"
  then show "cleanQuestionPrefix (l @ colon # ws @ x) = x"
    by (intro clean_bare) simp_all
next
  fix rest
  show "cleanQuestionPrefix (0xFF08 # rest) = trim (0xFF08 # rest)"
    by (rule clean_fullwidth)
next
  show "cleanQuestionPrefix (js ''1. What is X?'') = js ''What is X?''"
    by (simp add: clean_eval)
  show "cleanQuestionPrefix (js ''Q3: test'') = js ''test''"
    by (simp add: clean_eval)
  show "cleanQuestionPrefix (js ''(2)'' @ [0x793A, 0x4F8B]) = [0x793A, 0x4F8B]"
    by (simp add: clean_eval)
  show "cleanQuestionPrefix fullwidthExample = fullwidthExample"
    by (rule clean_fullwidthExample)
qed

text \<open>
  The theorem at \<open>question 12 - abc\<close>, at U+3010 7 U+3011 U+3001 \<open>abc\<close>, at \<open>(7) abc\<close>, at
  U+2460 \<open>abc\<close> and at U+95EE U+9898 U+FF1A \<open>abc\<close>: each is cleaned to \<open>abc\<close>.
\<close>

theorem cleanQuestionPrefix_strips_witness:
  "cleanQuestionPrefix (js ''question 12 - abc'') = js ''abc''
   \<and> cleanQuestionPrefix ([0x3010] @ js ''7'' @ [0x3011, 0x3001] @ js ''abc'') = js ''abc''
   \<and> cleanQuestionPrefix (js ''(7) abc'') = js ''abc''
   \<and> cleanQuestionPrefix ([0x2460] @ js '' abc'') = js ''abc''
   \<and> cleanQuestionPrefix ([0x95EE, 0x9898, 0xFF1A] @ js ''abc'') = js ''abc''"
proof -
  note t = cleanQuestionPrefix_strips
  have a: "cleanQuestionPrefix (js ''question'' @ js '' '' @ js ''12'' @ js '' - '' @ js ''abc'') = js ''abc''"
    by (rule t[THEN conjunct1, rule_format]) (simp add: prefix_eval)
  have b: "cleanQuestionPrefix ([0x3010] @ js ''7'' @ [0x3011] @ [] @ 0x3001 # [] @ js ''abc'') = js ''abc''"
    by (rule t[THEN conjunct2, THEN conjunct1, rule_format]) (simp add: prefix_eval)
  have c: "cleanQuestionPrefix (js ''('' @ js ''7'' @ [] @ [] @ 0x29 # js '' '' @ js ''abc'') = js ''abc''"
    by (rule t[THEN conjunct2, THEN conjunct1, rule_format]) (simp add: prefix_eval)
  have d: "cleanQuestionPrefix (0x2460 # js '' '' @ js ''abc'') = js ''abc''"
    by (rule t[THEN conjunct2, THEN conjunct2, THEN conjunct1, rule_format]) (simp add: prefix_eval)
  have e: "cleanQuestionPrefix ([0x95EE, 0x9898] @ 0xFF1A # [] @ js ''abc'') = js ''abc''"
    by (rule t[THEN conjunct2, THEN conjunct2, THEN conjunct2, THEN conjunct1, rule_format])
      (simp add: prefix_eval)
  from a b c d e show ?thesis by (simp add: js_def)
qed

text \<open>
  Claim C6 as stated fails: the fullwidth-parenthesised prefix of U+FF08 2 U+FF09 U+793A
  U+4F8B is not stripped, so the result is not U+793A U+4F8B.
\<close>

theorem cleanQuestionPrefix_fullwidth_counterexample:
  "cleanQuestionPrefix fullwidthExample \<noteq> [0x793A, 0x4F8B]"
  by (simp add: clean_fullwidthExample) (simp add: fullwidthExample_def)

subsection \<open>Every stage of the cleaner returns a suffix of its input\<close>

lemma starRests_suffix: "t \<in> set (starRests P s) \<Longrightarrow> suffix t s"
  by (induction s) (auto simp: suffix_Cons split: if_splits)

lemma rmatch_suffix: "t \<in> set (rmatch r s) \<Longrightarrow> suffix t s"
proof (induction r arbitrary: s t)
  case (Lit w)
  then show ?case by (auto simp: suffix_drop split: if_splits)
next
  case (LitI w)
  then show ?case by (auto simp: suffix_drop split: if_splits)
next
  case (Class P)
  then show ?case by (cases s) (auto simp: suffix_Cons split: if_splits)
next
  case (Opt P)
  then show ?case by (cases s) (auto simp: suffix_Cons split: if_splits)
next
  case (Star P)
  then show ?case by (simp add: starRests_suffix)
next
  case (Plus P)
  then show ?case
    by (cases s) (auto simp: suffix_Cons dest: starRests_suffix split: if_splits)
next
  case (Alt a b)
  then show ?case by auto
next
  case (Seq a b)
  from Seq.prems obtain u where u: "u \<in> set (rmatch a s)" and t: "t \<in> set (rmatch b u)"
    by auto
  from Seq.IH(1)[OF u] Seq.IH(2)[OF t] show ?case
    by (rule suffix_order.trans[rotated])
qed

lemma replaceAnchored_suffix: "suffix (replaceAnchored r s) s"
proof (cases "rmatch r s")
  case Nil
  then show ?thesis by (simp add: replaceAnchored_def)
next
  case (Cons t ts)
  then have "t \<in> set (rmatch r s)" by simp
  then have "suffix t s" by (rule rmatch_suffix)
  with Cons show ?thesis by (simp add: replaceAnchored_def)
qed

lemma space_not_fingerprint: "isSpace c \<Longrightarrow> \<not> isFingerprintChar c"
  by (auto simp: isSpace_def isFingerprintChar_def)

lemma fingerprint_suffix: "suffix a b \<Longrightarrow> suffix (fingerprint a) (fingerprint b)"
  by (auto simp: suffix_def fingerprint_def)

lemma fingerprint_trimEnd: "fingerprint (trimEnd s) = fingerprint s"
proof -
  have "trimEnd s @ rev (takeWhile isSpace (rev s))
          = rev (takeWhile isSpace (rev s) @ dropWhile isSpace (rev s))"
    unfolding trimEnd_def rev_append ..
  then have s: "trimEnd s @ rev (takeWhile isSpace (rev s)) = s"
    by simp
  have "filter isFingerprintChar (rev (takeWhile isSpace (rev s))) = []"
    by (auto simp: filter_empty_conv dest: set_takeWhileD space_not_fingerprint)
  then have "fingerprint (trimEnd s @ rev (takeWhile isSpace (rev s))) = fingerprint (trimEnd s)"
    by (simp add: fingerprint_def)
  with s show ?thesis by metis
qed

lemma fingerprint_trim_suffix: "suffix (fingerprint (trim s)) (fingerprint s)"
  by (simp add: trim_def fingerprint_trimEnd trimStart_def fingerprint_suffix suffix_dropWhile)

lemma fingerprint_replace_suffix: "suffix (fingerprint (replaceAnchored r s)) (fingerprint s)"
  by (simp add: fingerprint_suffix replaceAnchored_suffix)

lemma fingerprint_clean_suffix: "suffix (fingerprint (cleanQuestionPrefix s)) (fingerprint s)"
proof -
  define a where "a = trim s"
  define b where "b = replaceAnchored labelledNumberRe a"
  define c where "c = replaceAnchored numberRe b"
  define d where "d = replaceAnchored circledRe c"
  define e where "e = replaceAnchored bareLabelRe d"
  have "suffix (fingerprint (trim e)) (fingerprint e)" by (rule fingerprint_trim_suffix)
  also have "suffix (fingerprint e) (fingerprint d)"
    unfolding e_def by (rule fingerprint_replace_suffix)
  also have "suffix (fingerprint d) (fingerprint c)"
    unfolding d_def by (rule fingerprint_replace_suffix)
  also have "suffix (fingerprint c) (fingerprint b)"
    unfolding c_def by (rule fingerprint_replace_suffix)
  also have "suffix (fingerprint b) (fingerprint a)"
    unfolding b_def by (rule fingerprint_replace_suffix)
  also have "suffix (fingerprint a) (fingerprint s)"
    unfolding a_def by (rule fingerprint_trim_suffix)
  finally show ?thesis
    by (simp add: cleanQuestionPrefix_stages a_def b_def c_def d_def e_def)
qed

lemma clean_twice_example:
  "fingerprint (cleanQuestionPrefix (js ''1.2. Overview'')) = js ''2Overview''
   \<and> fingerprint (cleanQuestionPrefix (cleanQuestionPrefix (js ''1.2. Overview''))) = js ''Overview''"
  by (simp add: clean_eval fingerprint_def isFingerprintChar_def)

subsection \<open>Cleaning twice\<close>

text \<open>A match of a consuming expression shortens the text, so a cleaned text is left as it is only when no expression matches it.\<close>

lemma rmatch_consuming: "consuming r \<Longrightarrow> t \<in> set (rmatch r s) \<Longrightarrow> length t < length s"
proof (induction r arbitrary: s t)
  case (Lit w)
  then show ?case by (cases s) (auto simp: startsWith_def split: if_splits)
next
  case (LitI w)
  then show ?case by (cases s) (auto split: if_splits)
next
  case (Class P)
  then show ?case by (cases s) (auto split: if_splits)
next
  case (Plus P)
  then show ?case
    by (cases s) (auto split: if_splits dest!: starRests_suffix suffix_length_le)
next
  case (Alt a b)
  then show ?case by auto
next
  case (Seq a b)
  from Seq.prems obtain u where u: "u \<in> set (rmatch a s)" and t: "t \<in> set (rmatch b u)"
    by auto
  from u have 1: "length u \<le> length s" by (auto dest: rmatch_suffix suffix_length_le)
  from t have 2: "length t \<le> length u" by (auto dest: rmatch_suffix suffix_length_le)
  from Seq.prems(1) consider "consuming a" | "consuming b" by auto
  then show ?case
  proof cases
    case 1
    from Seq.IH(1)[OF 1 u] 2 show ?thesis by simp
  next
    case 2
    from Seq.IH(2)[OF 2 t] 1 show ?thesis by simp
  qed
qed simp_all

lemma replace_shorter:
  "consuming r \<Longrightarrow> rmatch r s \<noteq> [] \<Longrightarrow> length (replaceAnchored r s) < length s"
  by (cases "rmatch r s") (auto simp: replaceAnchored_def intro: rmatch_consuming)

lemma replace_le: "length (replaceAnchored r s) \<le> length s"
  by (rule suffix_length_le) (rule replaceAnchored_suffix)

lemma trim_le: "length (trim s) \<le> length s"
proof -
  have "length (trimEnd (trimStart s)) \<le> length (trimStart s)"
    by (simp add: trimEnd_def length_dropWhile_le[of isSpace "rev (trimStart s)", simplified])
  also have "\<dots> \<le> length s" by (simp add: trimStart_def length_dropWhile_le)
  finally show ?thesis by (simp add: trim_def)
qed

lemma consuming_res:
  "consuming labelledNumberRe" "consuming numberRe" "consuming circledRe" "consuming bareLabelRe"
  by (simp_all add: labelledNumberRe_def numberRe_def circledRe_def bareLabelRe_def js_def)

lemma clean_trimmed: "trim (cleanQuestionPrefix s) = cleanQuestionPrefix s"
  by (simp only: cleanQuestionPrefix_stages trim_trim)

lemma clean_fixed_iff:
  assumes c: "trim c = c"
  shows "(cleanQuestionPrefix c = c) =
     (rmatch labelledNumberRe c = [] \<and> rmatch numberRe c = [] \<and> rmatch circledRe c = []
        \<and> rmatch bareLabelRe c = [])"
proof
  assume "rmatch labelledNumberRe c = [] \<and> rmatch numberRe c = [] \<and> rmatch circledRe c = []
        \<and> rmatch bareLabelRe c = []"
  then show "cleanQuestionPrefix c = c"
    by (simp only: cleanQuestionPrefix_stages c fails_replace)
next
  assume fixed: "cleanQuestionPrefix c = c"
  define s1 where "s1 = replaceAnchored labelledNumberRe c"
  define s2 where "s2 = replaceAnchored numberRe s1"
  define s3 where "s3 = replaceAnchored circledRe s2"
  define s4 where "s4 = replaceAnchored bareLabelRe s3"
  have "cleanQuestionPrefix c = trim s4"
    by (simp only: cleanQuestionPrefix_stages c s1_def s2_def s3_def s4_def)
  with fixed have "length c = length (trim s4)" by simp
  also have "\<dots> \<le> length s4" by (rule trim_le)
  finally have 4: "length c \<le> length s4" .
  have le: "length s4 \<le> length s3" "length s3 \<le> length s2" "length s2 \<le> length s1"
    "length s1 \<le> length c"
    by (simp_all add: s1_def s2_def s3_def s4_def replace_le)
  have a: "rmatch labelledNumberRe c = []"
  proof (rule ccontr)
    assume "rmatch labelledNumberRe c \<noteq> []"
    from replace_shorter[OF consuming_res(1) this] have "length s1 < length c" by (simp add: s1_def)
    with 4 le show False by simp
  qed
  then have e1: "s1 = c" by (simp add: s1_def fails_replace)
  have b: "rmatch numberRe c = []"
  proof (rule ccontr)
    assume "rmatch numberRe c \<noteq> []"
    from replace_shorter[OF consuming_res(2) this] have "length s2 < length c" by (simp add: s2_def e1)
    with 4 le show False by simp
  qed
  then have e2: "s2 = c" by (simp add: s2_def e1 fails_replace)
  have d: "rmatch circledRe c = []"
  proof (rule ccontr)
    assume "rmatch circledRe c \<noteq> []"
    from replace_shorter[OF consuming_res(3) this] have "length s3 < length c" by (simp add: s3_def e2)
    with 4 le show False by simp
  qed
  then have e3: "s3 = c" by (simp add: s3_def e2 fails_replace)
  have e: "rmatch bareLabelRe c = []"
  proof (rule ccontr)
    assume "rmatch bareLabelRe c \<noteq> []"
    from replace_shorter[OF consuming_res(4) this] have "length s4 < length c" by (simp add: s4_def e3)
    with 4 show False by simp
  qed
  from a b d e show "rmatch labelledNumberRe c = [] \<and> rmatch numberRe c = [] \<and> rmatch circledRe c = []
        \<and> rmatch bareLabelRe c = []" by simp
qed

text \<open>
  Claim C7, as amended. For every string \<open>q\<close> the fingerprint of \<open>clean (clean q)\<close> is a
  suffix of the fingerprint of \<open>clean q\<close>. Cleaning a second time changes nothing exactly
  when none of the four expressions matches at the start of \<open>clean q\<close>; in that case the
  two fingerprints are equal.
\<close>

theorem fingerprint_clean_twice:
  "suffix (fingerprint (cleanQuestionPrefix (cleanQuestionPrefix q)))
     (fingerprint (cleanQuestionPrefix q))
   \<and> ((cleanQuestionPrefix (cleanQuestionPrefix q) = cleanQuestionPrefix q)
        = (\<not> strippable (cleanQuestionPrefix q)))
   \<and> (\<not> strippable (cleanQuestionPrefix q) \<longrightarrow>
        fingerprint (cleanQuestionPrefix (cleanQuestionPrefix q))
          = fingerprint (cleanQuestionPrefix q))"
proof -
  have 1: "suffix (fingerprint (cleanQuestionPrefix (cleanQuestionPrefix q)))
     (fingerprint (cleanQuestionPrefix q))"
    by (rule fingerprint_clean_suffix)
  have 2: "(cleanQuestionPrefix (cleanQuestionPrefix q) = cleanQuestionPrefix q)
        = (\<not> strippable (cleanQuestionPrefix q))"
    using clean_fixed_iff[OF clean_trimmed, of q] by (simp only: strippable_def de_Morgan_disj not_not)
  have 3: "\<not> strippable (cleanQuestionPrefix q) \<longrightarrow>
        fingerprint (cleanQuestionPrefix (cleanQuestionPrefix q))
          = fingerprint (cleanQuestionPrefix q)"
  proof
    assume "\<not> strippable (cleanQuestionPrefix q)"
    with 2 have "cleanQuestionPrefix (cleanQuestionPrefix q) = cleanQuestionPrefix q" by blast
    then show "fingerprint (cleanQuestionPrefix (cleanQuestionPrefix q))
          = fingerprint (cleanQuestionPrefix q)"
      by (rule arg_cong)
  qed
  from 1 2 3 show ?thesis by (intro conjI)
qed

text \<open>
  The theorem at \<open>Q3: test\<close>: the cleaned text \<open>test\<close> starts with nothing to strip, and
  cleaning it again gives \<open>test\<close>.
\<close>

theorem fingerprint_clean_twice_witness:
  "cleanQuestionPrefix (js ''Q3: test'') = js ''test''
   \<and> cleanQuestionPrefix (cleanQuestionPrefix (js ''Q3: test'')) = js ''test''
   \<and> fingerprint (cleanQuestionPrefix (cleanQuestionPrefix (js ''Q3: test''))) = js ''test''"
proof -
  have c: "cleanQuestionPrefix (js ''Q3: test'') = js ''test''" by (simp add: clean_eval)
  have n: "\<not> strippable (js ''test'')" by (simp add: strippable_def prefix_eval)
  have f: "fingerprint (js ''test'') = js ''test''"
    by (simp add: fingerprint_def isFingerprintChar_def js_def)
  have n': "\<not> strippable (cleanQuestionPrefix (js ''Q3: test''))" unfolding c by (rule n)
  note t = fingerprint_clean_twice[of "js ''Q3: test''"]
  from t n' have e: "cleanQuestionPrefix (cleanQuestionPrefix (js ''Q3: test''))
      = cleanQuestionPrefix (js ''Q3: test'')"
    by blast
  from t n' have "fingerprint (cleanQuestionPrefix (cleanQuestionPrefix (js ''Q3: test'')))
      = fingerprint (cleanQuestionPrefix (js ''Q3: test''))"
    by blast
  then have "fingerprint (cleanQuestionPrefix (cleanQuestionPrefix (js ''Q3: test''))) = js ''test''"
    by (simp only: c f)
  moreover from e have "cleanQuestionPrefix (cleanQuestionPrefix (js ''Q3: test'')) = js ''test''"
    by (simp only: c)
  ultimately show ?thesis using c by blast
qed

text \<open>
  Claim C7 as stated fails: each expression is applied once per call, so of two numeric
  prefixes in a row only the first is stripped by the first call. For \<open>1.2. Overview\<close>
  the fingerprint is \<open>2Overview\<close> after one cleaning and \<open>Overview\<close> after two.
\<close>

theorem fingerprint_clean_idempotence_counterexample:
  "fingerprint (cleanQuestionPrefix (js ''1.2. Overview''))
     \<noteq> fingerprint (cleanQuestionPrefix (cleanQuestionPrefix (js ''1.2. Overview'')))"
  by (simp add: clean_twice_example) (simp add: js_def)

section \<open>Properties of the duplicate filter\<close>

lemma clean_dedupTexts:
  "cleanQuestionPrefix dedupText1 = dedupText1"
  "cleanQuestionPrefix dedupText2 = dedupText2"
  "cleanQuestionPrefix dedupText3 = dedupText3"
  by (simp_all add: clean_eval dedupText1_def dedupText2_def dedupText3_def)

lemma fingerprint_dedupTexts:
  "fingerprint dedupText1 = [0x4EC0, 0x4E48, 0x662F, 0x5149, 0x5408, 0x4F5C, 0x7528]"
  "fingerprint dedupText2 = [0x8BF7, 0x95EE, 0x4EC0, 0x4E48, 0x662F, 0x5149, 0x5408, 0x4F5C, 0x7528]"
  "fingerprint dedupText3 = dedupText3"
  by (simp_all add: fingerprint_def isFingerprintChar_def dedupText1_def dedupText2_def
      dedupText3_def)

lemma deduplicate_example:
  "deduplicate [exampleQuestion dedupText1, exampleQuestion dedupText2, exampleQuestion dedupText3]
     = [exampleQuestion dedupText1, exampleQuestion dedupText2, exampleQuestion dedupText3]"
  apply (simp add: deduplicate_def exampleQuestion_def clean_dedupTexts fingerprint_dedupTexts
      Let_def MIN_LEN_FOR_FUZZY_def)
  apply (simp add: dedupText3_def)
  done

text \<open>
  The inclusion rule at work: a fingerprint of more than 10 characters that contains an
  accepted fingerprint of more than 10 characters is a duplicate.
\<close>

lemma inclusion_rule:
  assumes "length currentFingerprint > 10" "length existingFP > 10"
    and "includesStr currentFingerprint existingFP \<or> includesStr existingFP currentFingerprint"
  shows "isDuplicate currentFingerprint (existingFP # rest)"
  using assms by (simp add: MIN_LEN_FOR_FUZZY_def)

text \<open>
  Claim C1, as amended. On the three example texts the filter accepts all three
  questions: the fingerprints of the first two have 7 and 9 characters, which does not
  exceed the minimum length 10 of the fuzzy rules, so the inclusion rule is not applied
  to them and the second question is kept.
\<close>

theorem deduplicate_example_keeps_all:
  "deduplicate [exampleQuestion dedupText1, exampleQuestion dedupText2, exampleQuestion dedupText3]
     = [exampleQuestion dedupText1, exampleQuestion dedupText2, exampleQuestion dedupText3]
   \<and> length (fingerprint dedupText1) = 7 \<and> length (fingerprint dedupText2) = 9
   \<and> includesStr (fingerprint dedupText2) (fingerprint dedupText1)
   \<and> MIN_LEN_FOR_FUZZY = 10"
  by (simp add: deduplicate_example fingerprint_dedupTexts MIN_LEN_FOR_FUZZY_def startsWith_def)

text \<open>
  Claim C1 as stated fails: the returned list is not the list of the first and the
  third question.
\<close>

theorem deduplicate_example_counterexample:
  "deduplicate [exampleQuestion dedupText1, exampleQuestion dedupText2, exampleQuestion dedupText3]
     \<noteq> [exampleQuestion dedupText1, exampleQuestion dedupText3]"
  by (simp add: deduplicate_example)

section \<open>Properties of the shard planner\<close>

lemma ceiling_small: "0 < r \<Longrightarrow> r \<le> s \<Longrightarrow> \<lceil>real_of_int r / real_of_int s\<rceil> = 1"
  by (rule ceiling_unique) auto

lemma ceiling_step:
  "0 < s \<Longrightarrow> \<lceil>(real_of_int r - real_of_int s) / real_of_int s\<rceil> = \<lceil>real_of_int r / real_of_int s\<rceil> - 1"
proof -
  assume s: "0 < s"
  then have "(real_of_int r - real_of_int s) / real_of_int s = real_of_int r / real_of_int s - 1"
    by (simp add: diff_divide_distrib)
  then show ?thesis by simp
qed

lemma planLoop_invariant:
  "1 \<le> sz \<Longrightarrow> 0 \<le> remaining \<Longrightarrow>
   \<exists>p. planLoop remaining sz acc = Some (acc @ p) \<and> sum_list p = remaining
     \<and> int (length p) = \<lceil>real_of_int remaining / real_of_int sz\<rceil>
     \<and> (\<forall>x\<in>set p. 1 \<le> x \<and> x \<le> sz)"
proof (induction "nat remaining" arbitrary: remaining acc rule: less_induct)
  case less
  show ?case
  proof (cases "remaining > 0")
    case False
    with less.prems have "remaining = 0" by simp
    then show ?thesis by (subst planLoop.simps) simp
  next
    case True
    define cur where "cur = min remaining sz"
    have cur: "1 \<le> cur" "cur \<le> sz" "cur \<le> remaining"
      using True less.prems by (auto simp: cur_def)
    have "nat (remaining - cur) < nat remaining" using cur True by simp
    from less.hyps[OF this less.prems(1), of "acc @ [cur]"] cur
    obtain p where p: "planLoop (remaining - cur) sz (acc @ [cur]) = Some ((acc @ [cur]) @ p)"
      "sum_list p = remaining - cur"
      "int (length p) = \<lceil>real_of_int (remaining - cur) / real_of_int sz\<rceil>"
      "\<forall>x\<in>set p. 1 \<le> x \<and> x \<le> sz"
      by auto
    have step: "planLoop remaining sz acc = planLoop (remaining - cur) sz (acc @ [cur])"
      using True by (subst planLoop.simps) (simp add: cur_def Let_def)
    have len: "int (length (cur # p)) = \<lceil>real_of_int remaining / real_of_int sz\<rceil>"
    proof (cases "remaining \<le> sz")
      case True
      then have "cur = remaining" by (simp add: cur_def)
      with p(3) True \<open>remaining > 0\<close> show ?thesis by (simp add: ceiling_small)
    next
      case False
      then have "cur = sz" by (simp add: cur_def)
      with p(3) less.prems(1) show ?thesis by (simp add: ceiling_step)
    qed
    show ?thesis
      apply (rule exI[of _ "cur # p"])
      using step p cur len by simp
  qed
qed

text \<open>
  Claim C2. For every count and shard size of at least 1 the planning loop ends, the
  plan sums to the count, has \<open>ceil(count / shardSize)\<close> elements, each between 1 and
  the shard size; and the plan for 25 questions in shards of 10 is \<open>[10, 10, 5]\<close>.
\<close>

theorem shardPlan_correct:
  "(1 \<le> questionCount \<longrightarrow> 1 \<le> shardSize \<longrightarrow>
      (\<exists>plan. shardPlan questionCount shardSize = Some plan \<and> sum_list plan = questionCount
         \<and> int (length plan) = \<lceil>real_of_int questionCount / real_of_int shardSize\<rceil>
         \<and> (\<forall>x\<in>set plan. 1 \<le> x \<and> x \<le> shardSize)))
   \<and> shardPlan 25 10 = Some [10, 10, 5]"
proof (intro conjI impI)
  assume "1 \<le> questionCount" "1 \<le> shardSize"
  then show "\<exists>plan. shardPlan questionCount shardSize = Some plan \<and> sum_list plan = questionCount
         \<and> int (length plan) = \<lceil>real_of_int questionCount / real_of_int shardSize\<rceil>
         \<and> (\<forall>x\<in>set plan. 1 \<le> x \<and> x \<le> shardSize)"
    using planLoop_invariant[of shardSize questionCount "[]"] by (simp add: shardPlan_def)
next
  show "shardPlan 25 10 = Some [10, 10, 5]"
    by (simp add: shardPlan_def planLoop.simps)
qed

text \<open>The theorem at count 7 and shard size 3.\<close>

theorem shardPlan_correct_witness:
  "\<exists>plan. shardPlan 7 3 = Some plan \<and> sum_list plan = 7 \<and> plan = [3, 3, 1]"
proof -
  from shardPlan_correct[of 7 3] obtain plan where
    p: "shardPlan 7 3 = Some plan" "sum_list plan = 7" by auto
  have "shardPlan 7 3 = Some [3, 3, 1]" by (simp add: shardPlan_def planLoop.simps)
  with p show ?thesis by auto
qed


section \<open>Properties of the retrying call executor\<close>

lemma callWithRetry_fail_step:
  assumes "fn s = (Inl e, s')" "0 < retries"
  shows "callWithRetry fn a retries d l s =
     (case callWithRetry fn a (retries - 1) (d * (3 / 2)) l s' of (r, s'', effects) \<Rightarrow>
        (r, s'', [CallFn, ConsoleWarn a (4 - retries)] @ (if l then [OnLog a (4 - retries)] else [])
            @ [Sleep d] @ effects))"
  using assms by (subst callWithRetry.simps) (simp add: Let_def)

lemma callWithRetry_fail_last:
  assumes "fn s = (Inl e, s')"
  shows "callWithRetry fn a 0 d l s = (Inl e, s', [CallFn, ConsoleError])"
  using assms by (subst callWithRetry.simps) simp

text \<open>
  Claim C4. If the operation fails on every invocation, a run with 3 retries and
  initial delay \<open>d\<close> invokes it exactly 4 times, sleeps \<open>d\<close>, \<open>1.5 d\<close> and \<open>1.5 (1.5 d)\<close>
  between the invocations, and rejects with the error of the fourth invocation itself.
\<close>

theorem callWithRetry_exhaustion:
  assumes "alwaysFails fn"
  shows "\<exists>e1 s1 e2 s2 e3 s3 e4 s4 effects.
           fn s0 = (Inl e1, s1) \<and> fn s1 = (Inl e2, s2) \<and> fn s2 = (Inl e3, s3)
         \<and> fn s3 = (Inl e4, s4)
         \<and> callWithRetry fn actionName 3 d onLog s0 = (Inl e4, s4, effects)
         \<and> count_list effects CallFn = 4
         \<and> sleeps effects = [d, d * (3 / 2), d * (3 / 2) * (3 / 2)]
         \<and> filter isCallOrSleep effects
               = [CallFn, Sleep d, CallFn, Sleep (d * (3 / 2)), CallFn, Sleep (d * (3 / 2) * (3 / 2)), CallFn]"
proof -
  have f: "\<And>s. \<exists>e s'. fn s = (Inl e, s')"
  proof -
    fix s
    from assms have "isl (fst (fn s))" by (simp add: alwaysFails_def)
    then show "\<exists>e s'. fn s = (Inl e, s')" by (cases "fn s") (auto simp: isl_def)
  qed
  from f obtain e1 s1 where 1: "fn s0 = (Inl e1, s1)" by blast
  from f obtain e2 s2 where 2: "fn s1 = (Inl e2, s2)" by blast
  from f obtain e3 s3 where 3: "fn s2 = (Inl e3, s3)" by blast
  from f obtain e4 s4 where 4: "fn s3 = (Inl e4, s4)" by blast
  have c0: "callWithRetry fn actionName 0 (d * (3 / 2) * (3 / 2) * (3 / 2)) onLog s3
     = (Inl e4, s4, [CallFn, ConsoleError])"
    by (rule callWithRetry_fail_last[where fn=fn and s=s3, OF 4])
  have c1: "callWithRetry fn actionName 1 (d * (3 / 2) * (3 / 2)) onLog s2
     = (Inl e4, s4, [CallFn, ConsoleWarn actionName 3] @ (if onLog then [OnLog actionName 3] else [])
         @ [Sleep (d * (3 / 2) * (3 / 2)), CallFn, ConsoleError])"
    using callWithRetry_fail_step[where fn=fn and s=s2 and retries=1 and a=actionName
        and d="d * (3 / 2) * (3 / 2)" and l=onLog, OF 3] c0 by simp
  have c2: "callWithRetry fn actionName 2 (d * (3 / 2)) onLog s1
     = (Inl e4, s4, [CallFn, ConsoleWarn actionName 2] @ (if onLog then [OnLog actionName 2] else [])
         @ [Sleep (d * (3 / 2)), CallFn, ConsoleWarn actionName 3] @ (if onLog then [OnLog actionName 3] else [])
         @ [Sleep (d * (3 / 2) * (3 / 2)), CallFn, ConsoleError])"
    using callWithRetry_fail_step[where fn=fn and s=s1 and retries=2 and a=actionName
        and d="d * (3 / 2)" and l=onLog, OF 2] c1 by simp
  have c3: "callWithRetry fn actionName 3 d onLog s0
     = (Inl e4, s4, [CallFn, ConsoleWarn actionName 1] @ (if onLog then [OnLog actionName 1] else [])
         @ [Sleep d, CallFn, ConsoleWarn actionName 2] @ (if onLog then [OnLog actionName 2] else [])
         @ [Sleep (d * (3 / 2)), CallFn, ConsoleWarn actionName 3] @ (if onLog then [OnLog actionName 3] else [])
         @ [Sleep (d * (3 / 2) * (3 / 2)), CallFn, ConsoleError])"
    using callWithRetry_fail_step[where fn=fn and s=s0 and retries=3 and a=actionName
        and d=d and l=onLog, OF 1] c2 by simp
  show ?thesis
    using 1 2 3 4 c3 by (cases onLog) (simp_all add: sleeps_def isCallOrSleep_def)
qed

text \<open>
  The theorem at an operation that fails with the number of its invocation: the run
  rejects with error 3, the one of the fourth invocation.
\<close>

theorem callWithRetry_exhaustion_witness:
  "callWithRetry (\<lambda>n::nat. (Inl n :: nat + unit, Suc n)) [] 3 2000 False 0
     = (Inl 3, 4, [CallFn, ConsoleWarn [] 1, Sleep 2000, CallFn, ConsoleWarn [] 2, Sleep 3000,
                   CallFn, ConsoleWarn [] 3, Sleep 4500, CallFn, ConsoleError])"
proof -
  have a: "alwaysFails (\<lambda>n::nat. (Inl n :: nat + unit, Suc n))" by (simp add: alwaysFails_def)
  from callWithRetry_exhaustion[OF a, of 0 "[]" 2000 False]
  show ?thesis by simp
qed

section \<open>Properties of the JSON parser\<close>

lemma lexDigits_length: "lexDigits s = Some (ds, rest) \<Longrightarrow> length rest < length s"
proof -
  assume a: "lexDigits s = Some (ds, rest)"
  then have "takeWhile isDigit s \<noteq> []" and r: "rest = dropWhile isDigit s"
    by (auto simp: lexDigits_def split: if_splits)
  then have "length (takeWhile isDigit s) > 0" by simp
  moreover have "length s = length (takeWhile isDigit s) + length (dropWhile isDigit s)"
    by (metis length_append takeWhile_dropWhile_id)
  ultimately show ?thesis using r by simp
qed

lemma lexInt_length: "lexInt s = Some (i, rest) \<Longrightarrow> length rest < length s"
  by (auto simp: lexInt_def split: list.splits if_splits dest: lexDigits_length)

lemma lexFrac_length: "lexFrac s = Some (f, rest) \<Longrightarrow> length rest \<le> length s"
  by (auto simp: lexFrac_def split: list.splits if_splits option.splits dest!: lexDigits_length)

lemma lexExp_length: "lexExp s = Some (e, rest) \<Longrightarrow> length rest \<le> length s"
  by (auto simp: lexExp_def split: list.splits if_splits option.splits dest!: lexDigits_length)

lemma lexNumber_length: "lexNumber s = Some (n, rest) \<Longrightarrow> length rest < length s"
  by (auto simp: lexNumber_def Let_def split: list.splits if_splits option.splits prod.splits
      dest!: lexInt_length lexFrac_length lexExp_length)

lemma startsWith_drop_length: "startsWith s t \<Longrightarrow> t \<noteq> [] \<Longrightarrow> 0 < n \<Longrightarrow> length (drop n s) < length s"
  by (cases s) (auto simp: startsWith_def)

lemma parse_consumes:
  "(\<forall>v r. parseValue s = Some (v, r) \<longrightarrow> length r < length s)"
  "(\<forall>v r. parseElements acc s = Some (v, r) \<longrightarrow> length r < length s)"
  "(\<forall>v r. parseMembers macc s = Some (v, r) \<longrightarrow> length r < length s)"
proof (induction s and acc s and macc s rule: parseValue_parseElements_parseMembers.induct)
  case (1 s)
  show ?case
  proof (intro allI impI)
    fix v r assume a: "parseValue s = Some (v, r)"
    show "length r < length s"
    proof (cases s)
      case Nil
      with a show ?thesis by (simp add: parseValue.simps)
    next
      case (Cons c cs)
      consider "c = 0x22" | "c = 0x5B" | "c = 0x7B" | "c \<noteq> 0x22 \<and> c \<noteq> 0x5B \<and> c \<noteq> 0x7B"
        by blast
      then show ?thesis
      proof cases
        case 1
        with a Cons show ?thesis
          by (auto simp: parseValue.simps split: option.splits dest!: lexString_length)
      next
        case 2
        show ?thesis
        proof (cases "skipWs cs")
          case Nil
          with a Cons 2 show ?thesis by (simp add: parseValue.simps)
        next
          case (Cons d ds)
          note sk = this
          show ?thesis
          proof (cases "d = 0x5D")
            case True
            with a \<open>s = c # cs\<close> 2 sk have "r = ds" by (simp add: parseValue.simps)
            with sk skipWs_length[of cs] \<open>s = c # cs\<close> show ?thesis by simp
          next
            case False
            with a \<open>s = c # cs\<close> 2 sk have "parseElements [] (skipWs cs) = Some (v, r)"
              by (simp add: parseValue.simps)
            with "1.IH"(1)[OF \<open>s = c # cs\<close> _ _ sk False] 2
            have "length r < length (skipWs cs)" by simp
            with skipWs_length[of cs] \<open>s = c # cs\<close> show ?thesis by simp
          qed
        qed
      next
        case 3
        show ?thesis
        proof (cases "skipWs cs")
          case Nil
          with a Cons 3 show ?thesis by (simp add: parseValue.simps)
        next
          case (Cons d ds)
          note sk = this
          show ?thesis
          proof (cases "d = 0x7D")
            case True
            with a \<open>s = c # cs\<close> 3 sk have "r = ds" by (simp add: parseValue.simps)
            with sk skipWs_length[of cs] \<open>s = c # cs\<close> show ?thesis by simp
          next
            case False
            with a \<open>s = c # cs\<close> 3 sk have "parseMembers [] (skipWs cs) = Some (v, r)"
              by (simp add: parseValue.simps)
            with "1.IH"(2)[OF \<open>s = c # cs\<close> _ _ _ sk False] 3
            have "length r < length (skipWs cs)" by simp
            with skipWs_length[of cs] \<open>s = c # cs\<close> show ?thesis by simp
          qed
        qed
      next
        case 4
        with a Cons show ?thesis
          by (auto simp: parseValue.simps js_def split: if_splits option.splits
              dest!: lexNumber_length intro!: startsWith_drop_length)
      qed
    qed
  qed
next
  case (2 acc s)
  show ?case
  proof (intro allI impI)
    fix v r assume a: "parseElements acc s = Some (v, r)"
    then obtain v1 r1 c cs where pv: "parseValue s = Some (v1, r1)" and g: "length r1 < length s"
      and sk: "skipWs r1 = c # cs"
      and d: "c = 0x2C \<and> parseElements (acc @ [v1]) (skipWs cs) = Some (v, r) \<or> c = 0x5D \<and> r = cs"
      by (auto simp: parseElements.simps[of acc s] split: option.splits if_splits list.splits)
    from d show "length r < length s"
    proof
      assume c: "c = 0x2C \<and> parseElements (acc @ [v1]) (skipWs cs) = Some (v, r)"
      with "2.IH"(2)[OF pv refl g sk] have "length r < length (skipWs cs)" by simp
      with skipWs_Cons_length[OF sk] g show ?thesis by simp
    next
      assume "c = 0x5D \<and> r = cs"
      with skipWs_Cons_length[OF sk] skipWs_length[of cs] skipWs_length[of r1] sk g
      show ?thesis by simp
    qed
  qed
next
  case (3 macc s)
  show ?case
  proof (intro allI impI)
    fix v r assume a: "parseMembers macc s = Some (v, r)"
    then obtain q qs key r1 c cs v2 r2 d ds where s: "s = q # qs" and q: "q = 0x22"
      and ls: "lexString qs = Some (key, r1)" and sk: "skipWs r1 = c # cs" and c: "c = 0x3A"
      and pv: "parseValue (skipWs cs) = Some (v2, r2)" and g: "length r2 < length s"
      and sk2: "skipWs r2 = d # ds"
      and e: "d = 0x2C \<and> parseMembers (macc @ [(key, v2)]) (skipWs ds) = Some (v, r) \<or> d = 0x7D \<and> r = ds"
      by (auto simp: parseMembers.simps[of macc s] split: option.splits if_splits list.splits)
    from e show "length r < length s"
    proof
      assume "d = 0x2C \<and> parseMembers (macc @ [(key, v2)]) (skipWs ds) = Some (v, r)"
      with "3.IH"(2)[OF s q ls refl sk c pv refl g sk2] have "length r < length (skipWs ds)" by simp
      with skipWs_Cons_length[OF sk2] g show ?thesis by simp
    next
      assume "d = 0x7D \<and> r = ds"
      with skipWs_length[of r2] sk2 g show ?thesis by simp
    qed
  qed
qed

text \<open>The guards of the parser never fail.\<close>

lemma parseValue_consumes: "parseValue s = Some (v, r) \<Longrightarrow> length r < length s"
  using parse_consumes(1) by blast

section \<open>Properties of the answer normaliser\<close>

lemmas json_eval = JSON_parse_def parseValue.simps parseElements.simps parseMembers.simps
  skipWs_def isJsonSpace_def consChar_def hexValue_def unescape_def lexNumber_def lexInt_def
  lexFrac_def lexExp_def lexDigits_def isDigit_def startsWith_def js_def

lemma parse_AB: "JSON_parse (js ''[\"A\",\"B\"]'') = Some (JArray [JString (js ''A''), JString (js ''B'')])"
  by (simp add: json_eval)

lemma parse_A_comma_B: "JSON_parse (js ''A,B'') = None"
  by (simp add: json_eval)

lemma parse_object: "JSON_parse (js ''{\"a\":\"1\",\"b\":\"2\"}'')
   = Some (JObject [(js ''a'', JString (js ''1'')), (js ''b'', JString (js ''2''))])"
  by (simp add: json_eval)

lemmas norm_eval = normalizeAnswer_def complexTypes_def trim_def trimStart_def trimEnd_def
  isSpace_def startsWith_def isAnswerSeparator_def

lemma normalize_example_json:
  "normalizeAnswer MULTI_CHOICE (JString (js ''[\"A\",\"B\"]'')) = JArray [JString (js ''A''), JString (js ''B'')]"
proof -
  have c: "includesStr (js ''[\"A\",\"B\"]'') (js '','')"
    by (simp add: js_def startsWith_def)
  show ?thesis by (simp add: normalizeAnswer_def complexTypes_def parse_AB c)
qed

lemma normalize_example_commas:
  "normalizeAnswer MULTI_CHOICE (JString (js ''A,B'')) = JArray [JString (js ''A''), JString (js ''B'')]"
proof -
  have c: "includesStr (js ''A,B'') (js '','')"
    by (simp add: js_def startsWith_def)
  have s: "map (\<lambda>s. JString (trim s)) (split isAnswerSeparator (js ''A,B''))
      = [JString (js ''A''), JString (js ''B'')]"
    by (simp add: js_def trim_def trimStart_def trimEnd_def isSpace_def isAnswerSeparator_def)
  show ?thesis by (simp add: normalizeAnswer_def complexTypes_def parse_A_comma_B c s)
qed

lemma normalize_example_bare:
  "normalizeAnswer MULTI_CHOICE (JString (js ''A'')) = JArray [JString (js ''A'')]"
proof -
  have c: "\<not> includesStr (js ''A'') (js '','')" "\<not> startsWith (trim (js ''A'')) (js ''['')"
    by (simp_all add: js_def startsWith_def trim_def trimStart_def trimEnd_def isSpace_def)
  show ?thesis by (simp add: normalizeAnswer_def complexTypes_def c)
qed

lemma normalize_other_types: "t \<notin> set complexTypes \<Longrightarrow> normalizeAnswer t answer = answer"
  by (simp add: normalizeAnswer_def)

lemma normalize_bare:
  "t \<in> set complexTypes \<Longrightarrow> \<not> startsWith (trim str) (js ''['') \<Longrightarrow> \<not> includesStr str (js '','')
   \<Longrightarrow> normalizeAnswer t (JString str) = JArray [JString str]"
  by (simp add: normalizeAnswer_def)

lemma normalize_parse_failure:
  "t \<in> set complexTypes \<Longrightarrow> startsWith (trim str) (js ''['') \<or> includesStr str (js '','')
   \<Longrightarrow> JSON_parse str = None
   \<Longrightarrow> normalizeAnswer t (JString str)
       = JArray (map (\<lambda>s. JString (trim s)) (split isAnswerSeparator str))"
  by (simp add: normalizeAnswer_def)

lemma normalize_parse_success:
  "t \<in> set complexTypes \<Longrightarrow> startsWith (trim str) (js ''['') \<or> includesStr str (js '','')
   \<Longrightarrow> JSON_parse str = Some parsed
   \<Longrightarrow> normalizeAnswer t (JString str) = parsed"
  by (simp add: normalizeAnswer_def)

text \<open>
  Claim C3 at the failing input: for a MATCHING question whose answer string is the JSON
  object \<open>{"a":"1","b":"2"}\<close> (it contains a comma, so it is parsed), the normaliser
  returns the parsed object, which is not a sequence.
\<close>

theorem normalize_object_answer:
  "normalizeAnswer MATCHING (JString (js ''{\"a\":\"1\",\"b\":\"2\"}''))
     = JObject [(js ''a'', JString (js ''1'')), (js ''b'', JString (js ''2''))]
   \<and> \<not> isSequence (normalizeAnswer MATCHING (JString (js ''{\"a\":\"1\",\"b\":\"2\"}'')))"
proof -
  have i: "includesStr (js ''{\"a\":\"1\",\"b\":\"2\"}'') (js '','')"
    by (simp add: js_def startsWith_def)
  have "normalizeAnswer MATCHING (JString (js ''{\"a\":\"1\",\"b\":\"2\"}''))
     = JObject [(js ''a'', JString (js ''1'')), (js ''b'', JString (js ''2''))]"
    by (simp add: normalizeAnswer_def complexTypes_def parse_object i)
  then show ?thesis by (simp add: isSequence_def)
qed

subsection \<open>When the normaliser produces a sequence\<close>

lemma jsonSpace_isSpace: "isJsonSpace c \<Longrightarrow> isSpace c"
  by (auto simp: isJsonSpace_def isSpace_def)

lemma trimStart_skipWs: "trimStart (skipWs s) = trimStart s"
  by (induction s) (auto simp: trimStart_def skipWs_def jsonSpace_isSpace)

lemma trimEnd_prefix: "prefix (trimEnd x) x"
proof -
  have "trimEnd x @ rev (takeWhile isSpace (rev x))
          = rev (takeWhile isSpace (rev x) @ dropWhile isSpace (rev x))"
    unfolding trimEnd_def rev_append ..
  then have "trimEnd x @ rev (takeWhile isSpace (rev x)) = x" by simp
  then show ?thesis by (metis prefixI)
qed

lemma trim_bracket: "startsWith (trim s) (js ''['') \<Longrightarrow> \<exists>rest. trimStart s = 0x5B # rest"
proof -
  assume a: "startsWith (trim s) (js ''['')"
  then obtain t where t: "trimEnd (trimStart s) = 0x5B # t"
    by (cases "trimEnd (trimStart s)") (auto simp: startsWith_def js_def trim_def)
  from trimEnd_prefix[of "trimStart s"] obtain z where "trimStart s = trimEnd (trimStart s) @ z"
    by (auto simp: prefix_def)
  with t show ?thesis by simp
qed

lemma space_not_json_start:
  assumes "isSpace c"
  shows "c \<noteq> 0x22" "c \<noteq> 0x5B" "c \<noteq> 0x7B" "c \<noteq> 0x74" "c \<noteq> 0x66" "c \<noteq> 0x6E"
    "c \<noteq> 0x2D" "c \<noteq> 0x30" "\<not> isDigit c"
  using assms unfolding isSpace_def isDigit_def by presburger+

lemma parseValue_space: "isSpace c \<Longrightarrow> parseValue (c # cs) = None"
  using space_not_json_start[of c]
  by (simp add: parseValue.simps startsWith_def js_def lexNumber_def lexInt_def lexDigits_def)

lemma parseElements_array:
  "(\<forall>x. parseValue s' = x \<longrightarrow> True)"
  "(\<forall>v r. parseElements acc s = Some (v, r) \<longrightarrow> isSequence v)"
  "(\<forall>x. parseMembers macc s'' = x \<longrightarrow> True)"
proof (induction s' and acc s and macc s'' rule: parseValue_parseElements_parseMembers.induct)
  case (1 s')
  show ?case by simp
next
  case (2 acc s)
  show ?case
  proof (intro allI impI)
    fix v r assume a: "parseElements acc s = Some (v, r)"
    then obtain v1 r1 c cs where pv: "parseValue s = Some (v1, r1)" and g: "length r1 < length s"
      and sk: "skipWs r1 = c # cs"
      and d: "c = 0x2C \<and> parseElements (acc @ [v1]) (skipWs cs) = Some (v, r)
              \<or> c = 0x5D \<and> v = JArray (acc @ [v1])"
      by (auto simp: parseElements.simps[of acc s] split: option.splits if_splits list.splits)
    from d show "isSequence v"
    proof
      assume "c = 0x2C \<and> parseElements (acc @ [v1]) (skipWs cs) = Some (v, r)"
      with "2.IH"(2)[OF pv refl g sk] show ?thesis by simp
    next
      assume "c = 0x5D \<and> v = JArray (acc @ [v1])"
      then show ?thesis by (simp add: isSequence_def)
    qed
  qed
next
  case (3 macc s'')
  show ?case by simp
qed

lemma parse_bracket_array:
  assumes "startsWith (trim str) (js ''['')" "JSON_parse str = Some parsed"
  shows "isSequence parsed"
proof -
  from assms(2) obtain r where pv: "parseValue (skipWs str) = Some (parsed, r)"
    by (auto simp: JSON_parse_def split: option.splits if_splits)
  then obtain c cs where sk: "skipWs str = c # cs"
    by (cases "skipWs str") (auto simp: parseValue.simps)
  have ns: "\<not> isSpace c"
    using pv sk parseValue_space[of c cs] by auto
  from trim_bracket[OF assms(1)] obtain rest where "trimStart str = 0x5B # rest" ..
  with trimStart_skipWs[of str] sk ns have c: "c = 0x5B"
    by (simp add: trimStart_def)
  show ?thesis
  proof (cases "skipWs cs")
    case Nil
    with pv sk c show ?thesis by (simp add: parseValue.simps)
  next
    case (Cons d ds)
    show ?thesis
    proof (cases "d = 0x5D")
      case True
      with pv sk c Cons show ?thesis by (auto simp: parseValue.simps isSequence_def)
    next
      case False
      with pv sk c Cons have "parseElements [] (skipWs cs) = Some (parsed, r)"
        by (simp add: parseValue.simps)
      with parseElements_array(2) show ?thesis by blast
    qed
  qed
qed

text \<open>
  For the four types, the answer is a sequence unless the string contains a comma, does
  not start with a bracket and is the JSON text of a value that is not an array.
\<close>

lemma normalize_sequence:
  assumes "t \<in> set complexTypes"
    and "startsWith (trim str) (js ''['') \<or> JSON_parse str = None \<or> \<not> includesStr str (js '','')"
  shows "isSequence (normalizeAnswer t (JString str))"
proof (cases "startsWith (trim str) (js ''['') \<or> includesStr str (js '','')")
  case False
  with assms(1) show ?thesis by (simp add: normalizeAnswer_def isSequence_def)
next
  case True
  show ?thesis
  proof (cases "JSON_parse str")
    case None
    with True assms(1) show ?thesis by (simp add: normalizeAnswer_def isSequence_def)
  next
    case (Some parsed)
    with assms(2) True have b: "startsWith (trim str) (js ''['')" by auto
    from parse_bracket_array[OF b Some] True Some assms(1) show ?thesis
      by (simp add: normalizeAnswer_def)
  qed
qed

section \<open>Properties of the external context enricher\<close>

lemma performSearch_calls: "searchPerformed (fst (performSearch engine env keywords))"
  by (simp add: performSearch_def searchPerformed_def isSearchCall_def Let_def)

lemma searchPerformed_append:
  "searchPerformed (xs @ ys) = (searchPerformed xs \<or> searchPerformed ys)"
  by (simp add: searchPerformed_def)

lemma searchPerformed_started:
  "\<not> searchPerformed [EnrichLog (MsgEngine engine) 12, EnrichLog MsgScanning 15, KeywordCall]"
  "\<not> searchPerformed [EnrichLog MsgSkipSearch 20]"
  by (simp_all add: searchPerformed_def isSearchCall_def)

lemma fetch_skips:
  assumes "materials \<noteq> []" "keywordResp env = Inr text"
    and "extractKeywords text = [] \<or> isNone (extractKeywords text)
         \<or> isChattyCompleteness (extractKeywords text)"
  shows "fetchExternalContext materials allowedTypes engine env
     = ([EnrichLog (MsgEngine engine) 12, EnrichLog MsgScanning 15, KeywordCall,
         EnrichLog MsgSkipSearch 20], [])"
  using assms by (simp add: fetchExternalContext_def Let_def)

lemma fetch_searches:
  assumes "materials \<noteq> []" "keywordResp env = Inr text"
    and "\<not> (extractKeywords text = [] \<or> isNone (extractKeywords text)
         \<or> isChattyCompleteness (extractKeywords text))"
  shows "searchPerformed (fst (fetchExternalContext materials allowedTypes engine env))"
proof -
  obtain calls found where p: "performSearch engine env (extractKeywords text) = (calls, found)"
    by (cases "performSearch engine env (extractKeywords text)")
  with performSearch_calls[of engine env "extractKeywords text"]
  have c: "searchPerformed calls" by simp
  show ?thesis
    using assms p c
    by (cases found) (simp_all add: fetchExternalContext_def Let_def searchPerformed_def isSearchCall_def)
qed

text \<open>
  Claim C8, as amended. When there are materials and the extraction call answers, the
  enricher skips the search and contributes the empty context exactly when the keyword
  string (the answer trimmed, without a leading label U+5173 U+952E U+8BCD or Keywords and its
  colon, trimmed again) is empty, is one of the three spellings \<open>NONE\<close>, \<open>None\<close>,
  \<open>none\<close>, or has more than 40 characters and contains one of the four markers.
\<close>

theorem enrichment_skip_iff:
  assumes "materials \<noteq> []" "keywordResp env = Inr text"
  shows "(\<not> searchPerformed (fst (fetchExternalContext materials allowedTypes engine env))
           \<and> snd (fetchExternalContext materials allowedTypes engine env) = [])
     = (extractKeywords text = []
        \<or> extractKeywords text = js ''NONE'' \<or> extractKeywords text = js ''None''
        \<or> extractKeywords text = js ''none''
        \<or> (length (extractKeywords text) > 40
            \<and> (includesStr (extractKeywords text) [0x5B8C, 0x6574]
               \<or> includesStr (extractKeywords text) [0x63D0, 0x4F9B]
               \<or> includesStr (extractKeywords text) [0x6CA1, 0x6709, 0x7F3A, 0x5931]
               \<or> includesStr (extractKeywords text) [0x65E0, 0x9700])))"
proof (cases "extractKeywords text = [] \<or> isNone (extractKeywords text)
         \<or> isChattyCompleteness (extractKeywords text)")
  case True
  from fetch_skips[OF assms True, of allowedTypes engine] True show ?thesis
    by (simp add: searchPerformed_def isSearchCall_def isNone_def isChattyCompleteness_def)
next
  case False
  from fetch_searches[OF assms False, of allowedTypes engine] False show ?thesis
    by (simp add: isNone_def isChattyCompleteness_def)
qed

lemmas keywords_eval = extractKeywords_def keywordLabelRe_def replaceAnchored_def trim_def
  trimStart_def trimEnd_def isSpace_def canonicalize_def colonClass_def js_def

lemma keywords_label_none: "extractKeywords (Some (js ''Keywords: NONE'')) = js ''NONE''"
  by (simp add: keywords_eval)

lemma keywords_mixed_case: "extractKeywords (Some (js ''nOnE'')) = js ''nOnE''"
  by (simp add: keywords_eval)

text \<open>The theorem at the answer \<open>Keywords: NONE\<close>: the search is skipped.\<close>

theorem enrichment_skip_iff_witness:
  "\<not> searchPerformed (fst (fetchExternalContext [exampleMaterial] [SHORT_ANSWER] google_native
        (enrichmentAnswering (js ''Keywords: NONE''))))
   \<and> snd (fetchExternalContext [exampleMaterial] [SHORT_ANSWER] google_native
        (enrichmentAnswering (js ''Keywords: NONE''))) = []"
proof -
  have a: "[exampleMaterial] \<noteq> []" by simp
  have b: "keywordResp (enrichmentAnswering (js ''Keywords: NONE'')) = Inr (Some (js ''Keywords: NONE''))"
    by (simp add: enrichmentAnswering_def)
  from enrichment_skip_iff[OF a b, of "[SHORT_ANSWER]" google_native] show ?thesis
    by (simp add: keywords_label_none)
qed

text \<open>
  Claim C8 as stated fails: the answer \<open>nOnE\<close> equals \<open>NONE\<close> up to case, and the
  search is performed with it.
\<close>

theorem enrichment_mixed_case_counterexample:
  "map canonicalize (extractKeywords (Some (js ''nOnE''))) = map canonicalize (js ''NONE'')
   \<and> searchPerformed (fst (fetchExternalContext [exampleMaterial] [SHORT_ANSWER] google_native
        (enrichmentAnswering (js ''nOnE''))))"
proof
  show "map canonicalize (extractKeywords (Some (js ''nOnE''))) = map canonicalize (js ''NONE'')"
    by (simp add: keywords_mixed_case) (simp add: js_def canonicalize_def)
  have a: "[exampleMaterial] \<noteq> []" by simp
  have b: "keywordResp (enrichmentAnswering (js ''nOnE'')) = Inr (Some (js ''nOnE''))"
    by (simp add: enrichmentAnswering_def)
  have c: "\<not> (extractKeywords (Some (js ''nOnE'')) = [] \<or> isNone (extractKeywords (Some (js ''nOnE'')))
         \<or> isChattyCompleteness (extractKeywords (Some (js ''nOnE''))))"
    by (simp add: keywords_mixed_case) (simp add: js_def isNone_def isChattyCompleteness_def)
  from fetch_searches[OF a b c]
  show "searchPerformed (fst (fetchExternalContext [exampleMaterial] [SHORT_ANSWER] google_native
        (enrichmentAnswering (js ''nOnE''))))" .
qed

subsection \<open>The lines the enricher logs\<close>

lemma enrichLogs_append: "enrichLogs (xs @ ys) = enrichLogs xs @ enrichLogs ys"
  by (simp add: enrichLogs_def)

lemma enrichLogs_simps:
  "enrichLogs [] = []"
  "enrichLogs (EnrichLog m p # xs) = (m, p) # enrichLogs xs"
  "enrichLogs (KeywordCall # xs) = enrichLogs xs"
  "enrichLogs (EnrichConsoleError # xs) = enrichLogs xs"
  "enrichLogs (NativeSearchCall k # xs) = enrichLogs xs"
  "enrichLogs (ProviderCall e k # xs) = enrichLogs xs"
  by (simp_all add: enrichLogs_def)

lemma enrichLogs_performSearch: "enrichLogs (fst (performSearch engine env keywords)) = []"
  by (simp add: performSearch_def enrichLogs_simps Let_def)

section \<open>Properties of the scheduler\<close>

lemma insertRandom_mset: "mset (fst (insertRandom rnd k x xs)) = add_mset x (mset xs)"
proof (induction xs arbitrary: k)
  case Nil
  then show ?case by simp
next
  case (Cons y ys)
  obtain zs k' where r: "insertRandom rnd (Suc k) x ys = (zs, k')"
    by (cases "insertRandom rnd (Suc k) x ys")
  with Cons[of "Suc k"] have "mset zs = add_mset x (mset ys)" by simp
  with r show ?case by simp
qed

lemma sortRandomLoop_mset: "mset (sortRandomLoop rnd k acc xs) = mset acc + mset xs"
proof (induction xs arbitrary: k acc)
  case Nil
  then show ?case by simp
next
  case (Cons x xs)
  obtain acc' k' where i: "insertRandom rnd k x acc = (acc', k')"
    by (cases "insertRandom rnd k x acc")
  with insertRandom_mset[of rnd k x acc] have "mset acc' = add_mset x (mset acc)" by simp
  with Cons.IH[of k' acc'] i show ?case by simp
qed

lemma sortRandom_mset: "mset (sortRandom rnd xs) = mset xs"
  by (simp add: sortRandom_def sortRandomLoop_mset)

lemma finish_result:
  "mset (snd (finish world shuffle questions)) = mset (deduplicate questions)"
  "\<not> shuffle \<Longrightarrow> snd (finish world shuffle questions) = deduplicate questions"
  by (simp_all add: finish_def Let_def sortRandom_mset)

text \<open>
  Claim C10. Whenever a run resolves with a list, that list is a permutation of the
  deduplicated list of the questions that the shards produced, and it is that list
  itself, in acceptance order, when the shuffle flag is false.
\<close>

theorem generateExamQuestions_permutation:
  assumes "generateExamQuestions settings world materials questionCount types difficulty shuffle
             = Some (logs, Inr result)"
  shows "\<exists>batchCounts shardLogs questions.
           shardPlan questionCount (userBatchSize settings) = Some batchCounts
         \<and> runShards settings world questionCount batchCounts = (shardLogs, Inr questions)
         \<and> mset result = mset (deduplicate questions)
         \<and> (\<not> shuffle \<longrightarrow> result = deduplicate questions)"
proof -
  from assms obtain batchCounts where
    plan: "shardPlan questionCount (userBatchSize settings) = Some batchCounts"
    by (auto simp: generateExamQuestions_def split: option.splits)
  obtain shardLogs r where run: "runShards settings world questionCount batchCounts = (shardLogs, r)"
    by (cases "runShards settings world questionCount batchCounts")
  from assms plan run obtain questions where q: "r = Inr questions"
    by (cases r) (auto simp: generateExamQuestions_def Let_def split: prod.splits)
  from assms plan run q have res: "result = snd (finish world shuffle questions)"
    by (auto simp: generateExamQuestions_def Let_def split: prod.splits)
  from plan run q res show ?thesis
    by (auto simp: finish_result)
qed

text \<open>
  When the shard plan exists and the shards produce their questions, the run resolves,
  with the deduplicated list or its shuffle.
\<close>

lemma generateExamQuestions_resolves:
  assumes "shardPlan questionCount (userBatchSize settings) = Some batchCounts"
    and "runShards settings world questionCount batchCounts = (shardLogs, Inr questions)"
  shows "\<exists>logs. generateExamQuestions settings world materials questionCount types difficulty shuffle
           = Some (logs, Inr (if shuffle then sortRandom (random world) (deduplicate questions)
                              else deduplicate questions))"
  using assms by (simp add: generateExamQuestions_def Let_def finish_def)

subsection \<open>The join of the shards in PARALLEL mode\<close>




lemma parallel_shard_results:
  "k < length batchCounts \<Longrightarrow>
   map snd (map (\<lambda>i. runShard world i (i = 0)) [0..<length batchCounts]) ! k
     = snd (runShard world k (k = 0))"
  by simp



section \<open>Example runs\<close>

lemma shard_failsOnce:
  "runShard (exampleWorld failsOnce) 0 True
     = ([CallFn, ConsoleWarn (batchActionName 0) 1, OnLog (batchActionName 0) 1, Sleep 2000, CallFn],
        Inr [toQuestion 1000 0 (exampleRaw (js ''1. What is X?'')) 0])"
  by (simp add: runShard_def generateBatchQuestions_def exampleWorld_def failsOnce_def)

lemma shard_answersTwo:
  "runShard (exampleWorld answersTwo) 0 True
     = ([CallFn], Inr [toQuestion 1000 0 (exampleRaw (js ''1. What is X?'')) 0,
                      toQuestion 1000 0 (exampleRaw (js ''2. What is Y?'')) (Suc 0)])"
  by (simp add: runShard_def generateBatchQuestions_def exampleWorld_def answersTwo_def)


lemma example_plans:
  "shardPlan 1 10 = Some [1]" "shardPlan 2 10 = Some [2]" "shardPlan 15 10 = Some [10, 5]"
  by (simp_all add: shardPlan_def planLoop.simps)

lemma clean_X: "cleanQuestionPrefix (js ''1. What is X?'') = js ''What is X?''"
  by (simp add: clean_eval)

lemma clean_Y: "cleanQuestionPrefix (js ''2. What is Y?'') = js ''What is Y?''"
  by (simp add: clean_eval)

lemma fingerprint_XY:
  "fingerprint (js ''What is X?'') = js ''WhatisX''"
  "fingerprint (js ''What is Y?'') = js ''WhatisY''"
  by (simp_all add: fingerprint_def isFingerprintChar_def js_def)

lemma dedup_single:
  "deduplicate [toQuestion 1000 0 (exampleRaw (js ''1. What is X?'')) 0]
     = [(toQuestion 1000 0 (exampleRaw (js ''1. What is X?'')) 0)\<lparr>questionText := js ''What is X?''\<rparr>]"
  by (simp add: deduplicate_def Let_def toQuestion_def exampleRaw_def clean_X fingerprint_XY)
     (simp add: js_def)

lemma dedup_two:
  "deduplicate [toQuestion 1000 0 (exampleRaw (js ''1. What is X?'')) 0,
                toQuestion 1000 0 (exampleRaw (js ''2. What is Y?'')) (Suc 0)]
     = [(toQuestion 1000 0 (exampleRaw (js ''1. What is X?'')) 0)\<lparr>questionText := js ''What is X?''\<rparr>,
        (toQuestion 1000 0 (exampleRaw (js ''2. What is Y?'')) (Suc 0))\<lparr>questionText := js ''What is Y?''\<rparr>]"
  by (simp add: deduplicate_def Let_def toQuestion_def exampleRaw_def clean_X clean_Y fingerprint_XY
        MIN_LEN_FOR_FUZZY_def)
     (simp add: js_def)

lemma keywords_none: "extractKeywords (Some (js ''NONE'')) = js ''NONE''"
  by (simp add: keywords_eval)

lemma enrichment_exampleWorld: "enrichment (exampleWorld backend) = enrichmentAnswering (js ''NONE'')"
  by (simp add: exampleWorld_def)

lemma fetch_example:
  "fetchExternalContext [exampleMaterial] [SHORT_ANSWER] google_native (enrichmentAnswering (js ''NONE''))
     = ([EnrichLog (MsgEngine google_native) 12, EnrichLog MsgScanning 15, KeywordCall,
         EnrichLog MsgSkipSearch 20], [])"
  by (rule fetch_skips[of "[exampleMaterial]" "enrichmentAnswering (js ''NONE'')" "Some (js ''NONE'')"])
     (simp_all add: enrichmentAnswering_def keywords_none isNone_def)

lemma run_parallel_retry:
  "generateExamQuestions (exampleSettings PARALLEL) (exampleWorld failsOnce) [exampleMaterial] 1
      [SHORT_ANSWER] (js ''medium'') False
   = Some ([(MsgStart, 5), (MsgEngine google_native, 12), (MsgScanning, 15), (MsgSkipSearch, 20),
            (MsgSharding, 30), (MsgConfig 10 1 1000 PARALLEL, 35),
            (MsgParallelStart 1000 1, 40), (MsgLaunch 1 1, 40), (MsgAllLaunched, 80),
            (MsgRetry (batchActionName 0) 1, 40), (MsgCleaning, 95), (MsgSuccess, 100)],
           Inr [(toQuestion 1000 0 (exampleRaw (js ''1. What is X?'')) 0)
                   \<lparr>questionText := js ''What is X?''\<rparr>])"
  by (simp add: generateExamQuestions_def exampleSettings_def example_plans enrichment_exampleWorld
      fetch_example enrichLogs_simps runShards_def parallelRun_def Let_def shard_failsOnce
      retryLines_def promiseAll_def finish_def dedup_single)

text \<open>
  Claim C9 at the failing input: PARALLEL mode, one material, one shard, whose first
  backend call is rejected and retried. The retry line is logged after the line with
  progress 80, with the progress 40 that \<open>currentProgress\<close> still holds, so the progress
  values of the run are not non-decreasing.
\<close>

theorem parallel_retry_progress_not_monotone:
  "map_option (\<lambda>(logs, result). progressValues logs)
     (generateExamQuestions (exampleSettings PARALLEL) (exampleWorld failsOnce) [exampleMaterial] 1
        [SHORT_ANSWER] (js ''medium'') False)
     = Some [5, 12, 15, 20, 30, 35, 40, 40, 80, 40, 95, 100]
   \<and> \<not> sorted [5, 12, 15, 20, 30, 35, 40, 40, 80, 40, 95, (100::int)]"
  by (simp add: run_parallel_retry progressValues_def)

lemma random_exampleWorld: "random (exampleWorld backend) = (\<lambda>k. 0)"
  by (simp add: exampleWorld_def)

lemma run_serial_two:
  "generateExamQuestions (exampleSettings SERIAL) (exampleWorld answersTwo) [] 2 [SHORT_ANSWER]
      (js ''medium'') True
   = Some ([(MsgStart, 5), (MsgSharding, 30), (MsgConfig 10 1 1000 SERIAL, 35),
            (MsgShardStart 1 1, 40), (MsgProgress 2 2, 90), (MsgCleaning, 95), (MsgSuccess, 100)],
           Inr [(toQuestion 1000 0 (exampleRaw (js ''2. What is Y?'')) (Suc 0))
                   \<lparr>questionText := js ''What is Y?''\<rparr>,
                (toQuestion 1000 0 (exampleRaw (js ''1. What is X?'')) 0)
                   \<lparr>questionText := js ''What is X?''\<rparr>])"
  by (simp add: generateExamQuestions_def exampleSettings_def example_plans fetchExternalContext_def
      enrichLogs_def runShards_def Let_def shard_answersTwo retryLines_def
      finish_def dedup_two sortRandom_def random_exampleWorld)

text \<open>
  The theorem of claim C10 at a SERIAL run with one shard of two questions and the
  shuffle flag set, in a world whose random numbers put every element first: the run
  resolves with the two accepted questions in reverse order.
\<close>

theorem generateExamQuestions_permutation_witness:
  "\<exists>logs result questions.
      generateExamQuestions (exampleSettings SERIAL) (exampleWorld answersTwo) [] 2 [SHORT_ANSWER]
        (js ''medium'') True = Some (logs, Inr result)
    \<and> map questionText result = [js ''What is Y?'', js ''What is X?'']
    \<and> runShards (exampleSettings SERIAL) (exampleWorld answersTwo) 2 [2] = (take 2 (drop 3 logs), Inr questions)
    \<and> map questionText (deduplicate questions) = [js ''What is X?'', js ''What is Y?'']
    \<and> mset result = mset (deduplicate questions)"
proof -
  from generateExamQuestions_permutation[OF run_serial_two] obtain batchCounts shardLogs questions
    where p: "shardPlan 2 (userBatchSize (exampleSettings SERIAL)) = Some batchCounts"
      and r: "runShards (exampleSettings SERIAL) (exampleWorld answersTwo) 2 batchCounts
                = (shardLogs, Inr questions)"
      and m: "mset [(toQuestion 1000 0 (exampleRaw (js ''2. What is Y?'')) (Suc 0))
                   \<lparr>questionText := js ''What is Y?''\<rparr>,
                (toQuestion 1000 0 (exampleRaw (js ''1. What is X?'')) 0)
                   \<lparr>questionText := js ''What is X?''\<rparr>] = mset (deduplicate questions)"
    by blast
  from p have b: "batchCounts = [2]" by (simp add: exampleSettings_def example_plans)
  have "runShards (exampleSettings SERIAL) (exampleWorld answersTwo) 2 [2]
      = ([(MsgShardStart 1 1, 40), (MsgProgress 2 2, 90)],
         Inr [toQuestion 1000 0 (exampleRaw (js ''1. What is X?'')) 0,
              toQuestion 1000 0 (exampleRaw (js ''2. What is Y?'')) (Suc 0)])"
    by (simp add: runShards_def exampleSettings_def Let_def shard_answersTwo retryLines_def)
  with r b have q: "questions = [toQuestion 1000 0 (exampleRaw (js ''1. What is X?'')) 0,
              toQuestion 1000 0 (exampleRaw (js ''2. What is Y?'')) (Suc 0)]"
    and l: "shardLogs = [(MsgShardStart 1 1, 40), (MsgProgress 2 2, 90)]" by simp_all
  show ?thesis
    apply (rule exI, rule exI, rule exI[of _ questions])
    apply (intro conjI)
        apply (rule run_serial_two)
       apply simp
      using r b l apply simp
     apply (simp add: q dedup_two)
    apply (rule m)
    done
qed


section \<open>The progress values in SERIAL mode\<close>

lemma progressWithin_Nil: "progressWithin lo hi []"
  by (simp add: progressWithin_def progressValues_def)

lemma progressWithin_append:
  "progressWithin a b xs \<Longrightarrow> progressWithin c d ys \<Longrightarrow> b \<le> c \<Longrightarrow> a \<le> c \<Longrightarrow> b \<le> d
   \<Longrightarrow> progressWithin a d (xs @ ys)"
  by (fastforce simp: progressWithin_def progressValues_def sorted_append list_all_iff)

lemma progressWithin_mono:
  "progressWithin a b xs \<Longrightarrow> a' \<le> a \<Longrightarrow> b \<le> b' \<Longrightarrow> progressWithin a' b' xs"
  by (fastforce simp: progressWithin_def list_all_iff)

lemma progressWithin_const: "progressWithin p p (map (\<lambda>m. (m, p)) ms)"
  by (induction ms) (auto simp: progressWithin_def progressValues_def list_all_iff)

lemma progressWithin_single: "progressWithin p p [(m, p)]"
  by (simp add: progressWithin_def progressValues_def)

lemma enrich_progress:
  "progressWithin 12 25 (enrichLogs (fst (fetchExternalContext materials allowedTypes engine env)))"
proof -
  obtain calls found where p: "performSearch engine env (extractKeywords (projr (keywordResp env))) = (calls, found)"
    by (cases "performSearch engine env (extractKeywords (projr (keywordResp env)))")
  with enrichLogs_performSearch[of engine env "extractKeywords (projr (keywordResp env))"]
  have c: "enrichLogs calls = []" by simp
  show ?thesis
    using p c
    by (cases "keywordResp env"; cases found)
       (auto simp: fetchExternalContext_def Let_def enrichLogs_append progressWithin_def
          progressValues_def enrichLogs_simps)
qed

lemma round_progress_bounds:
  assumes "i \<le> n"
  shows "round (rat_of_nat i / rat_of_nat n * 50) \<le> 50" "0 \<le> round (rat_of_nat i / rat_of_nat n * 50)"
proof -
  define q where "q = rat_of_nat i / rat_of_nat n"
  have "q \<le> 1"
    unfolding q_def using assms by (cases "n = 0") (simp_all add: divide_le_eq)
  then have "q * 50 \<le> 50" by simp
  then have "round (q * 50) \<le> round (50 :: rat)" by (rule round_mono)
  then have "round (q * 50) \<le> 50" by simp
  then show "round (rat_of_nat i / rat_of_nat n * 50) \<le> 50" unfolding q_def .
  have "0 \<le> q" unfolding q_def by simp
  then have "(0 :: rat) \<le> q * 50" by simp
  then have "round (0 :: rat) \<le> round (q * 50)" by (rule round_mono)
  then have "0 \<le> round (q * 50)" by simp
  then show "0 \<le> round (rat_of_nat i / rat_of_nat n * 50)" unfolding q_def .
qed

lemma round_progress_mono:
  "round (rat_of_nat i / rat_of_nat n * 50) \<le> round (rat_of_nat (i + 1) / rat_of_nat n * 50)"
proof -
  define q where "q = rat_of_nat i / rat_of_nat n"
  define q' where "q' = rat_of_nat (i + 1) / rat_of_nat n"
  have "q \<le> q'"
    unfolding q_def q'_def by (simp add: divide_right_mono)
  then have "q * 50 \<le> q' * 50" by simp
  then have "round (q * 50) \<le> round (q' * 50)" by (rule round_mono)
  then show ?thesis unfolding q_def q'_def .
qed

lemma serialLoop_progress:
  "i + length bs = n \<Longrightarrow> cp = 40 + round (rat_of_nat i / rat_of_nat n * 50) \<Longrightarrow>
   progressWithin cp 90 (fst (serialLoop world d qc n i bs cp qs))"
proof (induction bs arbitrary: i cp qs)
  case Nil
  then show ?case by (simp add: progressWithin_Nil)
next
  case (Cons b bs)
  define cp' where "cp' = 40 + round (rat_of_nat (i + 1) / rat_of_nat n * 50)"
  from Cons.prems have i: "i + 1 \<le> n" "i \<le> n" by simp_all
  from Cons.prems(2) round_progress_mono[of i n] have le: "cp \<le> cp'" by (simp add: cp'_def)
  from round_progress_bounds(1)[OF i(1)] have hi: "cp' \<le> 90" by (simp add: cp'_def)
  define waiting where "waiting = (if i > 0 \<and> d > 0 then [(MsgSerialWait d, cp)] else [])"
  obtain effects r where sh: "runShard world i True = (effects, r)" by (cases "runShard world i True")
  define head where "head = waiting @ [(MsgShardStart (i + 1) n, cp)] @ map (\<lambda>m. (m, cp)) (retryLines effects)"
  have w: "progressWithin cp cp waiting"
    by (simp add: waiting_def progressWithin_Nil progressWithin_single)
  have h: "progressWithin cp cp head"
    unfolding head_def
    by (intro progressWithin_append[where b=cp and c=cp] w progressWithin_single progressWithin_const)
       simp_all
  show ?case
  proof (cases r)
    case (Inl e)
    with sh have "fst (serialLoop world d qc n i (b # bs) cp qs) = head"
      by (simp add: head_def waiting_def Let_def)
    with h le hi show ?thesis by (auto intro: progressWithin_mono)
  next
    case (Inr batchQuestions)
    obtain logs result where rec: "serialLoop world d qc n (i + 1) bs cp' (qs @ batchQuestions) = (logs, result)"
      by (cases "serialLoop world d qc n (i + 1) bs cp' (qs @ batchQuestions)")
    from Cons.prems(1) have "(i + 1) + length bs = n" by simp
    from Cons.IH[OF this cp'_def, of "qs @ batchQuestions"] rec
    have l: "progressWithin cp' 90 logs" by simp
    define entry where "entry = (MsgProgress (length (qs @ batchQuestions)) qc, cp')"
    have en: "progressWithin cp' cp' [entry]" unfolding entry_def by (rule progressWithin_single)
    have t: "progressWithin cp' 90 ([entry] @ logs)"
      by (rule progressWithin_append[OF en l]) (simp_all add: hi)
    have "fst (serialLoop world d qc n i (b # bs) cp qs) = head @ ([entry] @ logs)"
      using sh Inr rec by (simp add: head_def waiting_def Let_def cp'_def entry_def)
    moreover have "progressWithin cp 90 (head @ ([entry] @ logs))"
      using le hi by (intro progressWithin_append[OF h t]) simp_all
    ultimately show ?thesis by simp
  qed
qed

lemma finish_progress: "progressWithin 95 100 (fst (finish world shuffle questions))"
  by (simp add: finish_def Let_def progressWithin_def progressValues_def)

text \<open>
  In SERIAL mode the progress values of every run that settles are non-decreasing and lie
  between 0 and 100.
\<close>

lemma serial_progress_monotone:
  assumes "shardingMode settings = SERIAL"
    and "generateExamQuestions settings world materials questionCount types difficulty shuffle
           = Some (logs, result)"
  shows "progressWithin 0 100 logs"
proof -
  from assms(2) obtain batchCounts where
    plan: "shardPlan questionCount (userBatchSize settings) = Some batchCounts"
    by (auto simp: generateExamQuestions_def split: option.splits)
  define enriched where
    "enriched = enrichLogs (fst (fetchExternalContext materials types (activeEngine settings) (enrichment world)))"
  define before where "before = [(MsgStart, 5)] @ enriched @ [(MsgSharding, 30),
      (MsgConfig (userBatchSize settings) (length batchCounts) (userRequestDelay settings)
         (shardingMode settings), 35)]"
  obtain shardLogs r where
    run: "serialLoop world (userRequestDelay settings) questionCount (length batchCounts) 0 batchCounts 40 []
            = (shardLogs, r)"
    by (cases "serialLoop world (userRequestDelay settings) questionCount (length batchCounts) 0 batchCounts 40 []")
  have e: "progressWithin 12 25 enriched" unfolding enriched_def by (rule enrich_progress)
  have tail: "progressWithin 30 35 [(MsgSharding, 30),
      (MsgConfig (userBatchSize settings) (length batchCounts) (userRequestDelay settings)
         (shardingMode settings), 35)]"
    by (simp add: progressWithin_def progressValues_def)
  have b: "progressWithin 5 35 before"
    unfolding before_def
    by (intro progressWithin_append[where b=5 and c=12] progressWithin_append[where b=25 and c=30]
          progressWithin_single e tail) simp_all
  have "progressWithin 40 90 (fst (serialLoop world (userRequestDelay settings) questionCount
          (length batchCounts) 0 batchCounts 40 []))"
    by (rule serialLoop_progress) simp_all
  with run have s: "progressWithin 40 90 shardLogs" by simp
  have bs: "progressWithin 5 90 (before @ shardLogs)"
    by (rule progressWithin_append[where b=35 and c=40]) (simp_all add: b s)
  show ?thesis
  proof (cases r)
    case (Inl err)
    with assms plan run have "logs = before @ shardLogs"
      by (simp add: generateExamQuestions_def runShards_def Let_def before_def enriched_def)
    with bs show ?thesis by (auto intro: progressWithin_mono)
  next
    case (Inr questions)
    with assms plan run have "logs = (before @ shardLogs) @ fst (finish world shuffle questions)"
      by (simp add: generateExamQuestions_def runShards_def Let_def before_def enriched_def
          split: prod.splits)
    moreover have "progressWithin 5 100 ((before @ shardLogs) @ fst (finish world shuffle questions))"
      by (rule progressWithin_append[where b=90 and c=95]) (simp_all add: bs finish_progress)
    ultimately show ?thesis by (auto intro: progressWithin_mono)
  qed
qed

end
